theory Spec2Isabelle
  imports Main "HOL-Library.Sublist" "HOL-Library.AList"
begin

section \<open>Table records (src/app.py, class TableInfo)\<close>

text \<open>
  Python integers are unbounded, so row counts are \<open>int\<close>; the sentinel \<open>-1\<close> marks a
  failed query.  Time stamps are abstracted to integers (seconds), since no property
  below reads them.  Table and schema names are strings over 8-bit characters.
\<close>

record TableInfo =
  schema_name :: string
  target_table_name :: string
  target_rows :: int
  source_rows :: int
  previous_target_rows :: int
  previous_source_rows :: int
  source_tables :: "string list"
  last_updated :: int
  source_last_updated :: int
  target_last_updated :: int
  is_first_query :: bool
  source_updating :: bool
  target_updating :: bool
  target_is_estimated :: bool
  source_is_estimated :: bool
  pause_auto_refresh :: bool

text \<open>\<open>TableInfo.data_diff\<close> (src/app.py, lines 68-73).\<close>

definition data_diff :: "TableInfo \<Rightarrow> int" where
  "data_diff t =
     (if target_rows t = -1 \<or> source_rows t = -1 then 0
      else target_rows t - source_rows t)"

text \<open>
  \<open>TableInfo.is_consistent\<close>.  The repository holds two bodies of this property.
  Both only read the two counts, so each is given as a function of
  \<open>(target_rows, source_rows)\<close>:
  \<^item> \<open>is_consistent_plain\<close>: src/app.py, lines 75-78;
  \<^item> \<open>is_consistent_zero_case\<close>: src/cdc_monitor.py, lines 75-80, and
    src/data_access/table_service.py, lines 47-52 (the same text in both).
\<close>

definition is_consistent_plain :: "int \<Rightarrow> int \<Rightarrow> bool" where
  "is_consistent_plain tr sr = (tr = sr)"

definition is_consistent_zero_case :: "int \<Rightarrow> int \<Rightarrow> bool" where
  "is_consistent_zero_case tr sr = (if tr = 0 \<and> sr = 0 then True else tr = sr)"

definition is_consistent :: "TableInfo \<Rightarrow> bool" where
  "is_consistent t = is_consistent_plain (target_rows t) (source_rows t)"

text \<open>A record used to instantiate the theorems below.\<close>

definition example_record :: TableInfo where
  "example_record =
     \<lparr> schema_name = ''shop'', target_table_name = ''orders'',
       target_rows = 7, source_rows = 7,
       previous_target_rows = 0, previous_source_rows = 0,
       source_tables = [''orders''],
       last_updated = 0, source_last_updated = 0, target_last_updated = 0,
       is_first_query = True, source_updating = False, target_updating = False,
       target_is_estimated = False, source_is_estimated = False,
       pause_auto_refresh = False \<rparr>"

section \<open>Name mapping (src/app.py, class SyncProperties)\<close>

text \<open>
  The mapping is written with Python's \<open>re\<close> module.  Every regular expression the
  code uses is a fixed-length sequence of character classes, anchored by \<open>$\<close>, so a
  pattern is modelled as a list of atoms and the regex operations as functions over
  such lists:
  \<^item> \<open>\d\<close> is \<open>Digit\<close>, \<open>[0-9a-fA-F]\<close> is \<open>Hex\<close>, a literal character is \<open>Lit\<close>
    (over 8-bit characters the decimal digits are exactly \<open>0\<close> to \<open>9\<close>);
  \<^item> \<open>$\<close> (no MULTILINE flag) holds at the end of the string and also just before a
    newline that is the last character: \<open>at_dollar\<close>;
  \<^item> \<open>re.search(p$, s)\<close> tries the start positions from left to right:
    \<open>re_search_end\<close>;
  \<^item> \<open>re.sub(p$, '', s)\<close> removes the match found by the search; the patterns are
    longer than one character, so no second match can start at or after the position
    where \<open>$\<close> held: \<open>re_sub_end\<close>;
  \<^item> \<open>re.match('.*' p '$', s)\<close> lets \<open>.*\<close> run over any characters but newlines:
    \<open>re_match_dotstar_end\<close>;
  \<^item> \<open>re.match('^' p '$', s)\<close> is \<open>re_match_whole\<close>.
  \<open>str.strip()\<close> removes the characters for which \<open>str.isspace()\<close> holds,
  \<open>str.rfind\<close> answers \<open>-1\<close> when the character is absent.
\<close>

definition newline :: char where
  "newline = CHR 0x0A"

definition is_space :: "char \<Rightarrow> bool" where
  "is_space c = (c \<in> set [CHR 0x09, CHR 0x0A, CHR 0x0B, CHR 0x0C, CHR 0x0D, CHR 0x1C,
                           CHR 0x1D, CHR 0x1E, CHR 0x1F, CHR 0x20, CHR 0x85, CHR 0xA0])"

definition strip :: "string \<Rightarrow> string" where
  "strip s = rev (dropWhile is_space (rev (dropWhile is_space s)))"

text \<open>\<open>str.endswith\<close> and \<open>str.rfind\<close>.\<close>

definition endswith :: "string \<Rightarrow> string \<Rightarrow> bool" where
  "endswith s x = (length x \<le> length s \<and> drop (length s - length x) s = x)"

fun rfind :: "char \<Rightarrow> string \<Rightarrow> int" where
  "rfind c [] = -1"
| "rfind c (x # xs) =
     (let r = rfind c xs in if 0 \<le> r then r + 1 else if x = c then 0 else -1)"

text \<open>Patterns: character classes, a fixed-length pattern, a match at a position.\<close>

definition is_digit :: "char \<Rightarrow> bool" where
  "is_digit c = (c \<in> set ''0123456789'')"

definition is_hex :: "char \<Rightarrow> bool" where
  "is_hex c = (c \<in> set ''0123456789abcdefABCDEF'')"

datatype atom = Lit char | Digit | Hex

fun atom_ok :: "atom \<Rightarrow> char \<Rightarrow> bool" where
  "atom_ok (Lit a) c = (c = a)"
| "atom_ok Digit c = is_digit c"
| "atom_ok Hex c = is_hex c"

definition fits :: "atom list \<Rightarrow> string \<Rightarrow> bool" where
  "fits p x = list_all2 atom_ok p x"

definition match_at :: "atom list \<Rightarrow> string \<Rightarrow> nat \<Rightarrow> bool" where
  "match_at p s i = (i + length p \<le> length s \<and> fits p (take (length p) (drop i s)))"

text \<open>The anchor \<open>$\<close> and the four ways the code calls \<open>re\<close>.\<close>

definition at_dollar :: "string \<Rightarrow> nat \<Rightarrow> bool" where
  "at_dollar s j = (j = length s \<or> (Suc j = length s \<and> s ! j = newline))"

definition re_search_end :: "atom list \<Rightarrow> string \<Rightarrow> nat option" where
  "re_search_end p s =
     find (\<lambda>i. match_at p s i \<and> at_dollar s (i + length p)) [0..<Suc (length s)]"

definition re_sub_end :: "atom list \<Rightarrow> string \<Rightarrow> string" where
  "re_sub_end p s =
     (case re_search_end p s of None \<Rightarrow> s | Some i \<Rightarrow> take i s @ drop (i + length p) s)"

definition re_match_dotstar_end :: "atom list \<Rightarrow> string \<Rightarrow> bool" where
  "re_match_dotstar_end p s =
     list_ex (\<lambda>i. newline \<notin> set (take i s) \<and> match_at p s i \<and> at_dollar s (i + length p))
       [0..<Suc (length s)]"

definition re_match_whole :: "atom list \<Rightarrow> string \<Rightarrow> bool" where
  "re_match_whole p s = (match_at p s 0 \<and> at_dollar s (length p))"

text \<open>
  The patterns of the code: \<open>_\d{9}_\d{4}\<close> (line 115), \<open>pattern1\<close> (line 147),
  \<open>pattern2\<close> (line 153) and \<open>pattern3\<close> (line 159).
\<close>

definition digits :: "nat \<Rightarrow> atom list" where
  "digits n = replicate n Digit"

definition hexes :: "nat \<Rightarrow> atom list" where
  "hexes n = replicate n Hex"

definition pat_shard_year :: "atom list" where
  "pat_shard_year = Lit (CHR ''_'') # digits 9 @ Lit (CHR ''_'') # digits 4"

definition uuid_groups :: "char \<Rightarrow> atom list" where
  "uuid_groups sep =
     hexes 8 @ Lit sep # hexes 4 @ Lit sep # hexes 4 @ Lit sep # hexes 4 @ Lit sep # hexes 12"

definition pattern1 :: "atom list" where
  "pattern1 = Lit (CHR ''_'') # uuid_groups (CHR ''_'')"

definition pattern2 :: "atom list" where
  "pattern2 = Lit (CHR ''_'') # uuid_groups (CHR ''-'')"

definition pattern3 :: "atom list" where
  "pattern3 = Lit (CHR ''_'') # uuid_groups (CHR ''_'') @ Lit (CHR ''_'') # digits 4"

text \<open>\<open>SyncProperties._is_numeric_suffix\<close> (lines 126-131).\<close>

definition is_numeric_suffix :: "string \<Rightarrow> bool" where
  "is_numeric_suffix s =
     (if s = [] \<or> strip s = [] then False else re_match_whole (digits 9) s)"

text \<open>\<open>str.split('_')\<close>, \<open>'_'.join\<close> and \<open>re.sub(r'[-_]', '', x)\<close>.\<close>

fun split_on :: "char \<Rightarrow> string \<Rightarrow> string list" where
  "split_on c [] = [[]]"
| "split_on c (x # xs) =
     (if x = c then [] # split_on c xs
      else (case split_on c xs of [] \<Rightarrow> [[x]] | y # ys \<Rightarrow> (x # y) # ys))"

fun join :: "char \<Rightarrow> string list \<Rightarrow> string" where
  "join c [] = []"
| "join c [p] = p"
| "join c (p # q # ps) = p @ c # join c (q # ps)"

definition clean_uuid :: "string \<Rightarrow> string" where
  "clean_uuid x = filter (\<lambda>c. c \<noteq> CHR ''-'' \<and> c \<noteq> CHR ''_'') x"

text \<open>
  The loop of lines 167-176, for \<open>i\<close> from \<open>len(parts) - 1\<close> down to \<open>1\<close>: the second
  argument is \<open>i\<close>; \<open>None\<close> stands for leaving the loop without a result.
\<close>

fun uuid_scan :: "string list \<Rightarrow> nat \<Rightarrow> string option" where
  "uuid_scan parts 0 = None"
| "uuid_scan parts (Suc k) =
     (let cu = clean_uuid (join (CHR ''_'') (drop (Suc k) parts)) in
      if length cu = 32 \<and> re_match_whole (hexes 32) cu
        then Some (join (CHR ''_'') (take (Suc k) parts))
      else if 32 < length cu then None
      else uuid_scan parts k)"

text \<open>\<open>SyncProperties._extract_table_name_from_uuid\<close> (lines 133-178).\<close>

definition extract_table_name_from_uuid :: "string \<Rightarrow> string" where
  "extract_table_name_from_uuid table_name =
     (if table_name = [] \<or> CHR ''_'' \<notin> set table_name then table_name
      else if re_search_end pattern1 table_name \<noteq> None then re_sub_end pattern1 table_name
      else if re_search_end pattern2 table_name \<noteq> None then re_sub_end pattern2 table_name
      else if re_search_end pattern3 table_name \<noteq> None then re_sub_end pattern3 table_name
      else
        (let parts = split_on (CHR ''_'') table_name in
         if 2 \<le> length parts then
           (case uuid_scan parts (length parts - 1) of
              Some base \<Rightarrow> base
            | None \<Rightarrow> table_name)
         else table_name))"

text \<open>\<open>SyncProperties.get_target_table_name\<close> (lines 89-124).\<close>

definition get_target_table_name :: "string \<Rightarrow> string" where
  "get_target_table_name source_table_name =
     (if source_table_name = [] \<or> strip source_table_name = [] then source_table_name
      else if CHR ''_'' \<notin> set source_table_name then source_table_name
      else if endswith source_table_name ''_runtime''
        then take (length source_table_name - 8) source_table_name
      else
        (let last_underscore_index = rfind (CHR ''_'') source_table_name in
         if 0 < last_underscore_index \<and>
            is_numeric_suffix (drop (nat (last_underscore_index + 1)) source_table_name)
           then take (nat last_underscore_index) source_table_name
         else if re_match_dotstar_end pat_shard_year source_table_name
           then re_sub_end pat_shard_year source_table_name
         else
           (let extracted_base_name = extract_table_name_from_uuid source_table_name in
            if extracted_base_name \<noteq> source_table_name then extracted_base_name
            else source_table_name)))"

text \<open>
  An auxiliary notion for the proofs: the last characters of \<open>s\<close> fit the pattern \<open>p\<close>.
\<close>

definition ends_fit :: "atom list \<Rightarrow> string \<Rightarrow> bool" where
  "ends_fit p s = (length p \<le> length s \<and> fits p (drop (length s - length p) s))"

section \<open>Reverse mapping at initialisation (src/app.py, initialize_tables_from_target)\<close>

text \<open>
  Lines 1057-1089.  For each target table a record is created and its \<open>source_tables\<close>
  list is collected in three steps: the direct match, the source names whose mapped name
  is the target name (no name twice), and the fallback to the target name itself.
  \<open>current_time\<close> stands for \<open>datetime.now()\<close>, in seconds.
\<close>

definition new_table_info :: "string \<Rightarrow> string \<Rightarrow> int \<Rightarrow> TableInfo" where
  "new_table_info schema target_table current_time =
     \<lparr> schema_name = schema, target_table_name = target_table,
       target_rows = 0, source_rows = 0,
       previous_target_rows = 0, previous_source_rows = 0,
       source_tables = [],
       last_updated = current_time,
       source_last_updated = current_time - 365 * 86400,
       target_last_updated = current_time - 365 * 86400,
       is_first_query = True, source_updating = False, target_updating = False,
       target_is_estimated = False, source_is_estimated = False,
       pause_auto_refresh = False \<rparr>"

definition direct_match :: "string \<Rightarrow> string list \<Rightarrow> string list" where
  "direct_match target_table source_table_names =
     (if target_table \<in> set source_table_names then [target_table] else [])"

fun collect_mapped :: "string \<Rightarrow> string list \<Rightarrow> string list \<Rightarrow> string list" where
  "collect_mapped target_table [] acc = acc"
| "collect_mapped target_table (source_table # rest) acc =
     (if get_target_table_name source_table = target_table
      then (if source_table \<notin> set acc
            then collect_mapped target_table rest (acc @ [source_table])
            else collect_mapped target_table rest acc)
      else collect_mapped target_table rest acc)"

definition resolve_source_tables :: "string \<Rightarrow> string list \<Rightarrow> string list" where
  "resolve_source_tables target_table source_table_names =
     (let collected =
            collect_mapped target_table source_table_names
              (direct_match target_table source_table_names)
      in if collected = [] then [target_table] else collected)"

fun create_target_tables ::
  "string \<Rightarrow> int \<Rightarrow> string list \<Rightarrow> string list \<Rightarrow> (string \<times> TableInfo) list \<Rightarrow>
   (string \<times> TableInfo) list" where
  "create_target_tables schema current_time [] source_table_names target_tables = target_tables"
| "create_target_tables schema current_time (target_table # rest) source_table_names target_tables =
     create_target_tables schema current_time rest source_table_names
       (AList.update target_table
          ((new_table_info schema target_table current_time)
             \<lparr>source_tables := resolve_source_tables target_table source_table_names\<rparr>)
          target_tables)"

text \<open>Source names used to instantiate the theorems below.\<close>

definition example_sources :: "string list" where
  "example_sources =
     [''orders'', ''orders_123456789'', ''orders_05355967-c503-4a2d-9dd1-2dd7a9ffa15e'',
      ''events_runtime'']"

section \<open>The scheduler (src/app.py, MonitorApp.refresh_data and action_refresh)\<close>

text \<open>
  The fields of \<open>MonitorApp\<close> that the scheduler reads or writes.  A Python \<open>dict\<close> keeps
  its keys in insertion order and replaces the value of a key it already holds; the
  association lists below do the same through \<open>AList.update\<close>.
\<close>

record MonitorApp =
  tables :: "TableInfo list"
  stop_event :: bool
  is_paused :: bool
  target_iteration :: int
  source_iteration :: int
  source_update_interval :: int

type_synonym tables_dict = "(string \<times> TableInfo) list"

type_synonym schema_tables = "(string \<times> tables_dict) list"

text \<open>
  The loop of \<open>refresh_data\<close> that rebuilds \<open>target_tables\<close> (lines 799-810): a record that
  is consistent and paused is skipped, every other record is stored under its schema
  and table name.
\<close>

definition tables_of_schema :: "schema_tables \<Rightarrow> string \<Rightarrow> tables_dict" where
  "tables_of_schema target_tables schema =
     (case map_of target_tables schema of None \<Rightarrow> [] | Some tables_dict \<Rightarrow> tables_dict)"

fun select_tables :: "TableInfo list \<Rightarrow> schema_tables \<Rightarrow> schema_tables" where
  "select_tables [] target_tables = target_tables"
| "select_tables (table_info # rest) target_tables =
     (if is_consistent table_info \<and> pause_auto_refresh table_info
      then select_tables rest target_tables
      else select_tables rest
             (AList.update (schema_name table_info)
                (AList.update (target_table_name table_info) table_info
                   (tables_of_schema target_tables (schema_name table_info)))
                target_tables))"

text \<open>
  \<open>update_target_counts_async\<close> (lines 1654-1672) and \<open>update_source_counts_async\<close>
  (lines 1453-1472) create one polling task for every schema of \<open>target_tables\<close> in which
  no record is marked as updating on that side.  The result is the list of schemas for
  which a task is created.
\<close>

definition schemas_to_poll :: "(TableInfo \<Rightarrow> bool) \<Rightarrow> schema_tables \<Rightarrow> string list" where
  "schemas_to_poll updating target_tables =
     map fst (filter (\<lambda>(schema, tables_dict). \<not> list_ex (\<lambda>(name, t). updating t) tables_dict)
                target_tables)"

text \<open>
  What one run of \<open>refresh_data\<close> (lines 792-832) does: the application state after it,
  the \<open>target_tables\<close> it built, the schemas for which it created a target-side and a
  source-side polling task, and whether it ended in \<open>ZeroDivisionError\<close> (the \<open>%\<close> of line
  824 with an interval of \<open>0\<close>; the target-side tasks exist by then).
\<close>

record refresh_outcome =
  app_after :: MonitorApp
  selected :: schema_tables
  target_polls :: "string list"
  source_polls :: "string list"
  raised :: bool

definition nothing_done :: "MonitorApp \<Rightarrow> refresh_outcome" where
  "nothing_done app =
     \<lparr> app_after = app, selected = [], target_polls = [], source_polls = [], raised = False \<rparr>"

definition refresh_data :: "MonitorApp \<Rightarrow> refresh_outcome" where
  "refresh_data app =
     (if stop_event app \<or> is_paused app then nothing_done app
      else
        (let target_tables = select_tables (tables app) [] in
         if target_tables = [] then nothing_done app
         else
           (let app1 = app\<lparr>target_iteration := target_iteration app + 1\<rparr>;
                polled = schemas_to_poll target_updating target_tables
            in if source_update_interval app1 = 0
               then \<lparr> app_after = app1, selected = target_tables, target_polls = polled,
                      source_polls = [], raised = True \<rparr>
               else if target_iteration app1 mod source_update_interval app1 = 0
               then \<lparr> app_after = app1\<lparr>source_iteration := source_iteration app1 + 1\<rparr>,
                      selected = target_tables, target_polls = polled,
                      source_polls = schemas_to_poll source_updating target_tables,
                      raised = False \<rparr>
               else \<lparr> app_after = app1, selected = target_tables, target_polls = polled,
                      source_polls = [], raised = False \<rparr>)))"

text \<open>
  \<open>action_refresh\<close> (lines 841-848) clears every pause flag and schedules
  \<open>refresh_data\<close>, which is run here right after it.
\<close>

definition clear_pause_flags :: "MonitorApp \<Rightarrow> MonitorApp" where
  "clear_pause_flags app =
     app\<lparr>tables := map (\<lambda>table_info. table_info\<lparr>pause_auto_refresh := False\<rparr>) (tables app)\<rparr>"

definition action_refresh :: "MonitorApp \<Rightarrow> refresh_outcome" where
  "action_refresh app = refresh_data (clear_pause_flags app)"

text \<open>The record stored in \<open>target_tables\<close> under a schema and a table name.\<close>

definition lookup_table :: "schema_tables \<Rightarrow> string \<Rightarrow> string \<Rightarrow> TableInfo option" where
  "lookup_table target_tables schema name = map_of (tables_of_schema target_tables schema) name"

definition table_key :: "TableInfo \<Rightarrow> string \<times> string" where
  "table_key t = (schema_name t, target_table_name t)"

definition eligible :: "TableInfo \<Rightarrow> bool" where
  "eligible t = (\<not> (is_consistent t \<and> pause_auto_refresh t))"

text \<open>An application state used to instantiate the theorems below.\<close>

definition example_app :: MonitorApp where
  "example_app =
     \<lparr> tables = [example_record\<lparr>pause_auto_refresh := True\<rparr>,
                 example_record\<lparr>target_table_name := ''items'', source_rows := 3,
                                 pause_auto_refresh := True\<rparr>],
       stop_event = False, is_paused = False,
       target_iteration = 0, source_iteration = 0, source_update_interval = 5 \<rparr>"

section \<open>Polling passes (src/app.py, \<open>_update_single_schema_target\<close> and \<open>_update_single_schema_source\<close>)\<close>

text \<open>
  One pass talks to one database and watches the stop signal.  What the pass gets back
  is collected in an environment:
  \<^item> \<open>connect_ok\<close>: \<open>connect_target\<close> / \<open>connect_source\<close> returned a connection (they catch
    every exception and return \<open>None\<close> otherwise);
  \<^item> \<open>count_rows\<close>: the outcome of \<open>SELECT COUNT(*)\<close> on a table: an exception, no row, or
    a row with the count; a table answers the same way each time it is asked in a pass;
  \<^item> \<open>table_stats\<close>: the rows \<open>(table_name, table_rows)\<close> of the statistics catalogue for
    the schema, \<open>table_rows\<close> possibly \<open>NULL\<close>; \<open>None\<close> when the catalogue query raises;
  \<^item> \<open>table_stats_one\<close>: the catalogue query for a single table;
  \<^item> \<open>display_fails\<close>: the call into the display layer made by the estimate branches
    raises;
  \<^item> \<open>stop_at\<close>: \<open>Some n\<close> when the stop signal is seen set from the \<open>n\<close>-th call of
    \<open>stop_event.is_set()\<close> of the pass on (counted from \<open>0\<close>); the signal is never reset;
  \<^item> \<open>current_time\<close>: \<open>datetime.now()\<close> at the start of the pass.
  The locks only guard the assignments and are not modelled; a pass runs from start to
  end on its own copy of \<open>tables_dict\<close> and returns it with its result.
\<close>

datatype query_result = QueryError | NoRow | Row int

datatype stats_result = StatsError | StatsNoRow | StatsRow "int option"

record db_env =
  connect_ok :: bool
  count_rows :: "string \<Rightarrow> query_result"
  table_stats :: "(string \<times> int option) list option"
  table_stats_one :: "string \<Rightarrow> stats_result"
  display_fails :: bool
  stop_at :: "nat option"
  current_time :: int

definition stopped :: "db_env \<Rightarrow> nat \<Rightarrow> bool" where
  "stopped env k = (case stop_at env of None \<Rightarrow> False | Some n \<Rightarrow> n \<le> k)"

definition on_values :: "(TableInfo \<Rightarrow> TableInfo) \<Rightarrow> tables_dict \<Rightarrow> tables_dict" where
  "on_values f tables_dict = map (\<lambda>(name, table_info). (name, f table_info)) tables_dict"

text \<open>\<open>max(0, table_rows or 0)\<close> and the dictionary built from the catalogue rows.\<close>

definition stats_count :: "int option \<Rightarrow> int" where
  "stats_count table_rows = max 0 (case table_rows of None \<Rightarrow> 0 | Some v \<Rightarrow> v)"

definition stats_map :: "(string \<times> int option) list \<Rightarrow> (string \<rightharpoonup> int)" where
  "stats_map rows = fold (\<lambda>(name, table_rows) m. m(name \<mapsto> stats_count table_rows)) rows Map.empty"

subsection \<open>Target side\<close>

text \<open>The roll-forward of \<open>previous_target_rows\<close> shared by all target-side updates.\<close>

definition roll_previous_target :: "int \<Rightarrow> TableInfo \<Rightarrow> TableInfo" where
  "roll_previous_target baseline t =
     (if \<not> is_first_query t then t\<lparr>previous_target_rows := target_rows t\<rparr>
      else t\<lparr>previous_target_rows := baseline, is_first_query := False\<rparr>)"

text \<open>Lines 1606-1622: the exact count arrived.\<close>

definition store_target_exact :: "int \<Rightarrow> int \<Rightarrow> TableInfo \<Rightarrow> TableInfo" where
  "store_target_exact now new_count t =
     (let t' = (roll_previous_target new_count t)
                 \<lparr>target_rows := new_count, target_last_updated := now,
                  target_updating := False, target_is_estimated := False\<rparr>
      in if is_consistent t' then t'\<lparr>pause_auto_refresh := True\<rparr> else t')"

text \<open>Lines 1624-1635: the exact count query raised.\<close>

definition store_target_error :: "int \<Rightarrow> TableInfo \<Rightarrow> TableInfo" where
  "store_target_error now t =
     (roll_previous_target (-1) t)
       \<lparr>target_rows := -1, target_last_updated := now, target_is_estimated := False\<rparr>"

text \<open>Lines 1543-1554 and 1565-1575: an estimate, or the failure of the estimate.\<close>

definition store_target_estimate :: "int \<Rightarrow> int \<Rightarrow> TableInfo \<Rightarrow> TableInfo" where
  "store_target_estimate now new_count t =
     (roll_previous_target new_count t)
       \<lparr>target_rows := new_count, target_last_updated := now,
        target_updating := False, target_is_estimated := True\<rparr>"

definition clear_target_updating :: "tables_dict \<Rightarrow> tables_dict" where
  "clear_target_updating = on_values (\<lambda>t. t\<lparr>target_updating := False\<rparr>)"

definition mark_target_exact :: "tables_dict \<Rightarrow> tables_dict" where
  "mark_target_exact =
     on_values (\<lambda>t. if \<not> target_updating t then t\<lparr>target_updating := True\<rparr> else t)"

definition mark_target_estimate :: "tables_dict \<Rightarrow> tables_dict" where
  "mark_target_estimate =
     on_values (\<lambda>t. if \<not> target_updating t then t\<lparr>target_updating := True, target_rows := 0\<rparr>
                     else t)"

text \<open>
  The loop of the exact branch (lines 1586-1635).  \<open>k\<close> counts the calls of
  \<open>is_set()\<close> made so far, \<open>seen\<close> holds the records already handled.
\<close>

fun target_exact_loop ::
  "db_env \<Rightarrow> nat \<Rightarrow> tables_dict \<Rightarrow> tables_dict \<Rightarrow> bool \<times> tables_dict" where
  "target_exact_loop env k seen [] = (True, seen)"
| "target_exact_loop env k seen ((target_table, table_info) # rest) =
     (if stopped env k
      then (False, clear_target_updating (seen @ (target_table, table_info) # rest))
      else
        (case count_rows env target_table of
           QueryError \<Rightarrow>
             target_exact_loop env (Suc k)
               (seen @ [(target_table, store_target_error (current_time env) table_info)]) rest
         | NoRow \<Rightarrow>
             target_exact_loop env (Suc k)
               (seen @ [(target_table, store_target_exact (current_time env) 0 table_info)]) rest
         | Row new_count \<Rightarrow>
             target_exact_loop env (Suc k)
               (seen @ [(target_table, store_target_exact (current_time env) new_count table_info)])
               rest))"

text \<open>
  The loop of the estimate branch (lines 1525-1554): a table missing from the catalogue
  is counted exactly, \<open>-1\<close> when that fails.  On the stop signal only the record at hand
  is unmarked.
\<close>

definition target_estimate_count :: "db_env \<Rightarrow> (string \<rightharpoonup> int) \<Rightarrow> string \<Rightarrow> int" where
  "target_estimate_count env target_stats_map target_table =
     (case target_stats_map target_table of
        Some n \<Rightarrow> n
      | None \<Rightarrow>
          (case count_rows env target_table of
             QueryError \<Rightarrow> -1 | NoRow \<Rightarrow> 0 | Row n \<Rightarrow> n))"

fun target_estimate_loop ::
  "db_env \<Rightarrow> (string \<rightharpoonup> int) \<Rightarrow> nat \<Rightarrow> tables_dict \<Rightarrow> tables_dict \<Rightarrow> bool \<times> tables_dict" where
  "target_estimate_loop env target_stats_map k seen [] = (True, seen)"
| "target_estimate_loop env target_stats_map k seen ((target_table, table_info) # rest) =
     (if stopped env k
      then (False, seen @ (target_table, table_info\<lparr>target_updating := False\<rparr>) # rest)
      else
        target_estimate_loop env target_stats_map (Suc k)
          (seen @ [(target_table,
                    store_target_estimate (current_time env)
                      (target_estimate_count env target_stats_map target_table) table_info)])
          rest)"

text \<open>The loop run when the catalogue query raised (lines 1558-1575).\<close>

fun target_estimate_failed_loop ::
  "db_env \<Rightarrow> nat \<Rightarrow> tables_dict \<Rightarrow> tables_dict \<Rightarrow> bool \<times> tables_dict" where
  "target_estimate_failed_loop env k seen [] = (True, seen)"
| "target_estimate_failed_loop env k seen ((target_table, table_info) # rest) =
     (if stopped env k
      then (False, seen @ (target_table, table_info\<lparr>target_updating := False\<rparr>) # rest)
      else
        target_estimate_failed_loop env (Suc k)
          (seen @ [(target_table, store_target_estimate (current_time env) (-1) table_info)])
          rest)"

text \<open>
  \<open>_update_single_schema_target\<close> (lines 1474-1647).  The result is the returned flag
  and the records as the pass leaves them.
\<close>

definition update_single_schema_target ::
  "db_env \<Rightarrow> tables_dict \<Rightarrow> bool \<Rightarrow> bool \<times> tables_dict" where
  "update_single_schema_target env tables_dict use_information_schema =
     (if stopped env 0 then (False, tables_dict)
      else if \<not> connect_ok env then (False, tables_dict)
      else if use_information_schema then
        (if stopped env 1 then (False, tables_dict)
         else
           (let marked = mark_target_estimate tables_dict in
            if display_fails env then (False, clear_target_updating marked)
            else if marked = [] then (True, marked)
            else
              (case table_stats env of
                 None \<Rightarrow> target_estimate_failed_loop env 2 [] marked
               | Some rows \<Rightarrow> target_estimate_loop env (stats_map rows) 2 [] marked)))
      else target_exact_loop env 1 [] (mark_target_exact tables_dict))"

subsection \<open>Source side\<close>

text \<open>Lines 1423-1433: the exact sum arrived.\<close>

definition store_source_exact :: "int \<Rightarrow> int \<Rightarrow> TableInfo \<Rightarrow> TableInfo" where
  "store_source_exact now temp_source_rows t =
     (let t' = t\<lparr>source_rows := temp_source_rows, source_last_updated := now,
                 source_updating := False, source_is_estimated := False\<rparr>
      in if is_consistent t' then t'\<lparr>pause_auto_refresh := True\<rparr> else t')"

text \<open>Lines 1314-1318 and 1344-1348: an estimated sum.\<close>

definition store_source_estimate :: "int \<Rightarrow> int \<Rightarrow> TableInfo \<Rightarrow> TableInfo" where
  "store_source_estimate now total_source_rows t =
     t\<lparr>source_rows := total_source_rows, source_last_updated := now,
       source_updating := False, source_is_estimated := True\<rparr>"

definition clear_source_updating :: "tables_dict \<Rightarrow> tables_dict" where
  "clear_source_updating = on_values (\<lambda>t. t\<lparr>source_updating := False\<rparr>)"

definition mark_source_exact :: "tables_dict \<Rightarrow> tables_dict" where
  "mark_source_exact =
     on_values (\<lambda>t. if \<not> source_updating t then t\<lparr>source_updating := True\<rparr> else t)"

definition mark_source_estimate :: "tables_dict \<Rightarrow> tables_dict" where
  "mark_source_estimate =
     on_values (\<lambda>t. if \<not> source_updating t then t\<lparr>source_updating := True, source_rows := 0\<rparr>
                     else t)"

text \<open>
  The first attempt for one record (lines 1376-1400): a single \<open>COUNT(*)\<close> when there is
  one source table, else one \<open>UNION ALL\<close> of the counts, which raises when one of its
  tables cannot be counted.  \<open>None\<close> stands for the exception.
\<close>

definition obtained_count :: "db_env \<Rightarrow> string \<Rightarrow> int" where
  "obtained_count env source_table =
     (case count_rows env source_table of Row n \<Rightarrow> n | NoRow \<Rightarrow> 0 | QueryError \<Rightarrow> 0)"

definition count_batch :: "db_env \<Rightarrow> string list \<Rightarrow> int option" where
  "count_batch env sources =
     (if length sources = 1 then
        (case count_rows env (hd sources) of
           QueryError \<Rightarrow> None | NoRow \<Rightarrow> Some 0 | Row n \<Rightarrow> Some n)
      else if list_ex (\<lambda>source_table. count_rows env source_table = QueryError) sources then None
      else Some (sum_list (map (obtained_count env) sources)))"

text \<open>
  The fall-back, table by table (lines 1405-1420).  \<open>None\<close> stands for the stop signal
  seen inside the loop; otherwise the sum and the number of \<open>is_set()\<close> calls made.
\<close>

fun count_each :: "db_env \<Rightarrow> nat \<Rightarrow> string list \<Rightarrow> int \<Rightarrow> (int \<times> nat) option" where
  "count_each env k [] temp_source_rows = Some (temp_source_rows, k)"
| "count_each env k (source_table # rest) temp_source_rows =
     (if stopped env k then None
      else
        (case count_rows env source_table of
           Row n \<Rightarrow> count_each env (Suc k) rest (temp_source_rows + n)
         | NoRow \<Rightarrow> count_each env (Suc k) rest temp_source_rows
         | QueryError \<Rightarrow> count_each env (Suc k) rest temp_source_rows))"

fun source_exact_loop ::
  "db_env \<Rightarrow> nat \<Rightarrow> tables_dict \<Rightarrow> tables_dict \<Rightarrow> bool \<times> tables_dict" where
  "source_exact_loop env k seen [] = (True, seen)"
| "source_exact_loop env k seen ((target_table, table_info) # rest) =
     (if stopped env k
      then (False, clear_source_updating (seen @ (target_table, table_info) # rest))
      else if source_tables table_info = []
      then source_exact_loop env (Suc k)
             (seen @ [(target_table, store_source_exact (current_time env) 0 table_info)]) rest
      else
        (case count_batch env (source_tables table_info) of
           Some temp_source_rows \<Rightarrow>
             source_exact_loop env (Suc k)
               (seen @ [(target_table,
                         store_source_exact (current_time env) temp_source_rows table_info)])
               rest
         | None \<Rightarrow>
             (case count_each env (Suc k) (source_tables table_info) 0 of
                None \<Rightarrow> (False, clear_source_updating (seen @ (target_table, table_info) # rest))
              | Some (temp_source_rows, k') \<Rightarrow>
                  source_exact_loop env k'
                    (seen @ [(target_table,
                              store_source_exact (current_time env) temp_source_rows table_info)])
                    rest)))"

text \<open>
  The estimate branch (lines 1260-1349).  With the catalogue rows at hand, a source
  table missing from them is counted exactly and adds nothing when that fails.
\<close>

definition source_estimate_total :: "db_env \<Rightarrow> (string \<rightharpoonup> int) \<Rightarrow> string list \<Rightarrow> int" where
  "source_estimate_total env source_rows_map sources =
     sum_list (map (\<lambda>source_table.
                      case source_rows_map source_table of
                        Some n \<Rightarrow> n
                      | None \<Rightarrow> obtained_count env source_table)
                 sources)"

fun source_estimate_loop ::
  "db_env \<Rightarrow> (string \<rightharpoonup> int) \<Rightarrow> nat \<Rightarrow> tables_dict \<Rightarrow> tables_dict \<Rightarrow> bool \<times> tables_dict" where
  "source_estimate_loop env source_rows_map k seen [] = (True, seen)"
| "source_estimate_loop env source_rows_map k seen ((target_table, table_info) # rest) =
     (if stopped env k
      then (False, seen @ (target_table, table_info\<lparr>source_updating := False\<rparr>) # rest)
      else
        source_estimate_loop env source_rows_map (Suc k)
          (seen @ [(target_table,
                    store_source_estimate (current_time env)
                      (source_estimate_total env source_rows_map (source_tables table_info))
                      table_info)])
          rest)"

text \<open>
  When the catalogue query raised, each source table is looked up on its own
  (lines 1322-1348); a row adds its \<open>table_rows\<close> when that is neither \<open>NULL\<close> nor \<open>0\<close>.
\<close>

definition stats_one_count :: "db_env \<Rightarrow> string \<Rightarrow> int" where
  "stats_one_count env source_table =
     (case table_stats_one env source_table of
        StatsRow (Some n) \<Rightarrow> n
      | StatsRow None \<Rightarrow> 0
      | StatsNoRow \<Rightarrow> 0
      | StatsError \<Rightarrow> 0)"

fun source_estimate_failed_loop ::
  "db_env \<Rightarrow> nat \<Rightarrow> tables_dict \<Rightarrow> tables_dict \<Rightarrow> bool \<times> tables_dict" where
  "source_estimate_failed_loop env k seen [] = (True, seen)"
| "source_estimate_failed_loop env k seen ((target_table, table_info) # rest) =
     (if stopped env k
      then (False, seen @ (target_table, table_info\<lparr>source_updating := False\<rparr>) # rest)
      else
        source_estimate_failed_loop env (Suc k)
          (seen @ [(target_table,
                    store_source_estimate (current_time env)
                      (sum_list (map (stats_one_count env) (source_tables table_info)))
                      table_info)])
          rest)"

text \<open>
  \<open>_update_single_schema_source\<close> (lines 1229-1445).  The catalogue query of the
  estimate branch asks for the source tables of the batch only.
\<close>

definition update_single_schema_source ::
  "db_env \<Rightarrow> tables_dict \<Rightarrow> bool \<Rightarrow> bool \<times> tables_dict" where
  "update_single_schema_source env tables_dict use_information_schema =
     (if stopped env 0 then (False, tables_dict)
      else if \<not> connect_ok env then (False, tables_dict)
      else if use_information_schema then
        (if stopped env 1 then (False, tables_dict)
         else
           (let marked = mark_source_estimate tables_dict in
            if display_fails env then (False, clear_source_updating marked)
            else
              (let all_source_tables = concat (map (\<lambda>(name, t). source_tables t) marked) in
               if marked = [] \<or> all_source_tables = [] then (True, marked)
               else
                 (case table_stats env of
                    None \<Rightarrow> source_estimate_failed_loop env 2 [] marked
                  | Some rows \<Rightarrow>
                      source_estimate_loop env
                        (stats_map (filter (\<lambda>(name, table_rows). name \<in> set all_source_tables) rows))
                        2 [] marked))))
      else source_exact_loop env 1 [] (mark_source_exact tables_dict))"

subsection \<open>Auxiliary notions for the proofs\<close>

text \<open>What a completed exact pass stores in one record.\<close>

definition source_exact_step :: "db_env \<Rightarrow> TableInfo \<Rightarrow> TableInfo" where
  "source_exact_step env t =
     store_source_exact (current_time env)
       (sum_list (map (obtained_count env) (source_tables t))) t"

definition target_exact_step :: "db_env \<Rightarrow> string \<times> TableInfo \<Rightarrow> string \<times> TableInfo" where
  "target_exact_step env entry =
     (fst entry,
      case count_rows env (fst entry) of
        QueryError \<Rightarrow> store_target_error (current_time env) (snd entry)
      | NoRow \<Rightarrow> store_target_exact (current_time env) 0 (snd entry)
      | Row new_count \<Rightarrow> store_target_exact (current_time env) new_count (snd entry))"

text \<open>
  How one record may change over a pass, as far as the pause flag goes: the name stays,
  a set flag stays set, and a flag that becomes set does so in an exact pass on a record
  that is then consistent.
\<close>

definition pause_step :: "bool \<Rightarrow> string \<times> TableInfo \<Rightarrow> string \<times> TableInfo \<Rightarrow> bool" where
  "pause_step exact a b =
     (fst b = fst a \<and>
      (pause_auto_refresh (snd a) \<longrightarrow> pause_auto_refresh (snd b)) \<and>
      (pause_auto_refresh (snd b) \<and> \<not> pause_auto_refresh (snd a) \<longrightarrow>
         exact \<and> is_consistent (snd b)))"

text \<open>
  How the source count of one record may change over an exact source pass: it is left as
  it was, or it becomes the sum of the counts obtained for the source tables.
\<close>

definition source_sum_step :: "db_env \<Rightarrow> string \<times> TableInfo \<Rightarrow> string \<times> TableInfo \<Rightarrow> bool" where
  "source_sum_step env a b =
     (fst b = fst a \<and>
      source_tables (snd b) = source_tables (snd a) \<and>
      (source_rows (snd b) = source_rows (snd a) \<or>
       source_rows (snd b) = sum_list (map (obtained_count env) (source_tables (snd a)))))"

subsection \<open>Outcomes of an exact pass for one record\<close>

text \<open>
  What an exact pass may have done to one record \<open>a\<close> when it ends with the record \<open>b\<close>:
  \<^item> the pass did not reach the record: only the updating mark may differ;
  \<^item> target side, the count query raised: the count is \<open>-1\<close> and the pause flag is as
    before;
  \<^item> the count (the sum, on the source side) was stored: the pause flag is set if it was
    set before or if the record is now consistent, and not otherwise.
\<close>

definition target_not_reached :: "string \<times> TableInfo \<Rightarrow> string \<times> TableInfo \<Rightarrow> bool" where
  "target_not_reached a b =
     (fst b = fst a \<and>
      (snd b = (snd a)\<lparr>target_updating := True\<rparr> \<or> snd b = (snd a)\<lparr>target_updating := False\<rparr>))"

definition target_query_failed ::
  "db_env \<Rightarrow> string \<times> TableInfo \<Rightarrow> string \<times> TableInfo \<Rightarrow> bool" where
  "target_query_failed env a b =
     (fst b = fst a \<and> count_rows env (fst a) = QueryError \<and>
      target_rows (snd b) = -1 \<and> source_rows (snd b) = source_rows (snd a) \<and>
      pause_auto_refresh (snd b) = pause_auto_refresh (snd a))"

definition target_count_stored ::
  "db_env \<Rightarrow> string \<times> TableInfo \<Rightarrow> string \<times> TableInfo \<Rightarrow> bool" where
  "target_count_stored env a b =
     (fst b = fst a \<and> count_rows env (fst a) \<noteq> QueryError \<and>
      target_rows (snd b) = obtained_count env (fst a) \<and>
      source_rows (snd b) = source_rows (snd a) \<and>
      pause_auto_refresh (snd b) = (pause_auto_refresh (snd a) \<or> is_consistent (snd b)))"

definition source_not_reached :: "string \<times> TableInfo \<Rightarrow> string \<times> TableInfo \<Rightarrow> bool" where
  "source_not_reached a b =
     (fst b = fst a \<and>
      (snd b = (snd a)\<lparr>source_updating := True\<rparr> \<or> snd b = (snd a)\<lparr>source_updating := False\<rparr>))"

definition source_sum_stored ::
  "db_env \<Rightarrow> string \<times> TableInfo \<Rightarrow> string \<times> TableInfo \<Rightarrow> bool" where
  "source_sum_stored env a b =
     (fst b = fst a \<and>
      source_rows (snd b) = sum_list (map (obtained_count env) (source_tables (snd a))) \<and>
      target_rows (snd b) = target_rows (snd a) \<and>
      pause_auto_refresh (snd b) = (pause_auto_refresh (snd a) \<or> is_consistent (snd b)))"

definition target_exact_outcome ::
  "db_env \<Rightarrow> string \<times> TableInfo \<Rightarrow> string \<times> TableInfo \<Rightarrow> bool" where
  "target_exact_outcome env a b =
     (target_not_reached a b \<or> target_query_failed env a b \<or> target_count_stored env a b)"

definition source_exact_outcome ::
  "db_env \<Rightarrow> string \<times> TableInfo \<Rightarrow> string \<times> TableInfo \<Rightarrow> bool" where
  "source_exact_outcome env a b = (source_not_reached a b \<or> source_sum_stored env a b)"

text \<open>Environments and a batch used to instantiate the theorems below.\<close>

definition example_env :: db_env where
  "example_env =
     \<lparr> connect_ok = True,
       count_rows = (\<lambda>name. if name = ''orders'' then Row 7
                            else if name = ''orders_123456789'' then Row 5
                            else QueryError),
       table_stats = None,
       table_stats_one = (\<lambda>name. StatsNoRow),
       display_fails = False,
       stop_at = None,
       current_time = 100 \<rparr>"

definition example_batch :: tables_dict where
  "example_batch =
     [(''orders'', example_record\<lparr>source_tables := [''orders'', ''orders_123456789'', ''orders_gone''],
                                  target_rows := 12\<rparr>),
      (''items'', example_record\<lparr>target_table_name := ''items'', source_tables := [''items'']\<rparr>)]"

text \<open>A record whose source count is unknown (\<open>-1\<close>) and whose target query raises.\<close>

definition example_failed_batch :: tables_dict where
  "example_failed_batch =
     [(''items'', example_record\<lparr>target_table_name := ''items'', source_tables := [''items''],
                                 source_rows := -1\<rparr>)]"

section \<open>Properties of the name mapping\<close>

lemma fits_length: "fits p x \<Longrightarrow> length x = length p"
  by (simp add: fits_def list_all2_lengthD)

lemma ends_fit_append: "fits p m \<Longrightarrow> ends_fit p (b @ m)"
  by (simp add: ends_fit_def fits_length)

lemma ends_fit_nth:
  assumes "ends_fit p s" "k < length p"
  shows "atom_ok (p ! (length p - Suc k)) (s ! (length s - Suc k))"
proof -
  let ?d = "drop (length s - length p) s"
  from assms have le: "length p \<le> length s" and f: "list_all2 atom_ok p ?d"
    by (simp_all add: ends_fit_def fits_def)
  from assms(2) have "length p - Suc k < length p" by simp
  with f have "atom_ok (p ! (length p - Suc k)) (?d ! (length p - Suc k))"
    by (rule list_all2_nthD)
  moreover have "?d ! (length p - Suc k) = s ! (length s - Suc k)"
    using le assms(2) by simp
  ultimately show ?thesis by simp
qed

lemma ends_fit_clash:
  assumes "ends_fit p s" "ends_fit q s" "k < length p" "k < length q"
    and "\<And>c. atom_ok (p ! (length p - Suc k)) c \<Longrightarrow> atom_ok (q ! (length q - Suc k)) c \<Longrightarrow> False"
  shows False
  using ends_fit_nth [OF assms(1) assms(3)] ends_fit_nth [OF assms(2) assms(4)] assms(5)
  by blast

text \<open>When the last character is no newline, \<open>$\<close> only holds at the very end.\<close>

lemma at_dollar_end:
  assumes s: "s \<noteq> []" and l: "last s \<noteq> newline" and j: "j < length s"
  shows "\<not> at_dollar s j"
proof
  assume a: "at_dollar s j"
  from a j have "Suc j = length s" and n: "s ! j = newline"
    by (simp_all add: at_dollar_def)
  then have "j = length s - 1" by simp
  with s l n show False by (simp add: last_conv_nth)
qed

lemma end_match_iff:
  assumes "s \<noteq> []" "last s \<noteq> newline" "p \<noteq> []"
  shows "(match_at p s i \<and> at_dollar s (i + length p)) \<longleftrightarrow>
         (ends_fit p s \<and> i = length s - length p)"
proof
  assume a: "match_at p s i \<and> at_dollar s (i + length p)"
  then have le: "i + length p \<le> length s" by (simp add: match_at_def)
  have "i + length p = length s"
  proof (rule ccontr)
    assume "i + length p \<noteq> length s"
    with le have "i + length p < length s" by simp
    with at_dollar_end [OF assms(1,2)] a show False by blast
  qed
  then have i: "i = length s - length p" and "length p \<le> length s" by simp_all
  with a show "ends_fit p s \<and> i = length s - length p"
    by (simp add: match_at_def ends_fit_def)
next
  assume "ends_fit p s \<and> i = length s - length p"
  then show "match_at p s i \<and> at_dollar s (i + length p)"
    by (simp add: match_at_def ends_fit_def at_dollar_def)
qed

lemma re_search_end_None:
  assumes "s \<noteq> []" "last s \<noteq> newline" "p \<noteq> []" "\<not> ends_fit p s"
  shows "re_search_end p s = None"
  unfolding re_search_end_def find_None_iff
  using end_match_iff [OF assms(1,2,3)] assms(4) by blast

lemma re_search_end_Some:
  assumes "s \<noteq> []" "last s \<noteq> newline" "p \<noteq> []" "ends_fit p s"
  shows "re_search_end p s = Some (length s - length p)"
proof -
  let ?P = "\<lambda>i. match_at p s i \<and> at_dollar s (i + length p)"
  have P: "?P i \<longleftrightarrow> i = length s - length p" for i
    using end_match_iff [OF assms(1,2,3)] assms(4) by blast
  have "find ?P [0..<Suc (length s)] = Some (length s - length p)"
    unfolding find_Some_iff
    by (rule exI [of _ "length s - length p"]) (auto simp add: P nth_upt simp del: upt_Suc)
  then show ?thesis by (simp add: re_search_end_def)
qed

lemma re_sub_end_strip:
  assumes "fits p m" "m \<noteq> []" "last m \<noteq> newline"
  shows "re_sub_end p (b @ m) = b"
proof -
  from assms have p: "p \<noteq> []" by (auto simp add: fits_def)
  have "re_search_end p (b @ m) = Some (length (b @ m) - length p)"
    using assms p by (intro re_search_end_Some ends_fit_append) simp_all
  then show ?thesis using fits_length [OF assms(1)] by (simp add: re_sub_end_def)
qed

lemma re_match_dotstar_end_False:
  assumes "s \<noteq> []" "last s \<noteq> newline" "p \<noteq> []" "\<not> ends_fit p s"
  shows "\<not> re_match_dotstar_end p s"
  unfolding re_match_dotstar_end_def list_ex_iff
  using end_match_iff [OF assms(1,2,3)] assms(4) by blast

lemma strip_Nil_iff: "strip s = [] \<longleftrightarrow> (\<forall>c\<in>set s. is_space c)"
proof
  assume "strip s = []"
  then have a: "\<forall>c\<in>set (dropWhile is_space s). is_space c"
    by (simp add: strip_def dropWhile_eq_Nil_conv)
  have "dropWhile is_space s = []"
  proof (rule ccontr)
    assume n: "dropWhile is_space s \<noteq> []"
    then have "\<not> is_space (hd (dropWhile is_space s))" by (rule hd_dropWhile)
    moreover from n have "hd (dropWhile is_space s) \<in> set (dropWhile is_space s)" by simp
    ultimately show False using a by blast
  qed
  then show "\<forall>c\<in>set s. is_space c" by (simp add: dropWhile_eq_Nil_conv)
next
  assume "\<forall>c\<in>set s. is_space c"
  then have "dropWhile is_space s = []" by (simp add: dropWhile_eq_Nil_conv)
  then show "strip s = []" by (simp add: strip_def del: dropWhile_eq_Nil_conv)
qed

lemma underscore_not_blank:
  assumes "CHR ''_'' \<in> set s"
  shows "s \<noteq> [] \<and> strip s \<noteq> []"
proof -
  have "\<not> is_space (CHR ''_'')" by (simp add: is_space_def)
  with assms show ?thesis by (auto simp add: strip_Nil_iff)
qed

lemma rfind_absent: "c \<notin> set ys \<Longrightarrow> rfind c ys = -1"
  by (induction ys) (auto simp add: Let_def)

lemma rfind_last_occurrence: "c \<notin> set ys \<Longrightarrow> rfind c (xs @ c # ys) = int (length xs)"
  by (induction xs) (simp_all add: Let_def rfind_absent)

lemma fits_map_Lit: "fits (map Lit x) y \<longleftrightarrow> y = x"
  unfolding fits_def
proof (induction x arbitrary: y)
  case Nil
  then show ?case by simp
next
  case (Cons a x)
  then show ?case by (cases y) auto
qed

lemma endswith_ends_fit: "endswith s x \<longleftrightarrow> ends_fit (map Lit x) s"
  by (simp add: endswith_def ends_fit_def fits_map_Lit)

lemma fits_last:
  assumes "fits p m" "p \<noteq> []"
  shows "atom_ok (last p) (last m)"
proof -
  from assms have len: "length m = length p" and m: "m \<noteq> []"
    by (auto simp add: fits_def dest: list_all2_lengthD)
  from assms(2) have "length p - 1 < length p" by (cases p) simp_all
  with assms(1) have "atom_ok (p ! (length p - 1)) (m ! (length p - 1))"
    unfolding fits_def by (rule list_all2_nthD)
  with assms(2) m len show ?thesis by (simp add: last_conv_nth)
qed

lemma not_newline_digit_hex: "\<not> is_digit newline" "\<not> is_hex newline"
  by (simp_all add: is_digit_def is_hex_def newline_def)

lemma fits_set:
  assumes "fits p m" "c \<in> set m"
  shows "\<exists>a\<in>set p. atom_ok a c"
proof -
  from assms(2) obtain i where i: "i < length m" "m ! i = c" by (auto simp add: in_set_conv_nth)
  with assms(1) have "atom_ok (p ! i) c" "i < length p"
    by (auto simp add: fits_def list_all2_conv_all_nth)
  then show ?thesis by (metis nth_mem)
qed

lemma fits_append:
  "fits (p @ q) m \<longleftrightarrow> fits p (take (length p) m) \<and> fits q (drop (length p) m)"
proof
  assume "fits (p @ q) m"
  then obtain us vs where "m = us @ vs" "length us = length p"
      "list_all2 atom_ok p us" "list_all2 atom_ok q vs"
    by (auto simp add: fits_def list_all2_append1)
  then show "fits p (take (length p) m) \<and> fits q (drop (length p) m)"
    by (simp add: fits_def)
next
  assume a: "fits p (take (length p) m) \<and> fits q (drop (length p) m)"
  then have "list_all2 atom_ok (p @ q) (take (length p) m @ drop (length p) m)"
    unfolding fits_def by (intro list_all2_appendI) simp_all
  then show "fits (p @ q) m" by (simp add: fits_def)
qed

lemma whole_match_length:
  "re_match_whole p s \<Longrightarrow> length s = length p \<or> length s = Suc (length p)"
  by (auto simp add: re_match_whole_def at_dollar_def)

lemma not_numeric_by_length:
  "length x \<noteq> 9 \<Longrightarrow> length x \<noteq> 10 \<Longrightarrow> \<not> is_numeric_suffix x"
  using whole_match_length [of "digits 9" x]
  by (auto simp add: is_numeric_suffix_def digits_def)

lemma get_target_table_name_rules:
  assumes "CHR ''_'' \<in> set s" "\<not> endswith s ''_runtime''"
  shows "get_target_table_name s =
     (if 0 < rfind (CHR ''_'') s \<and> is_numeric_suffix (drop (nat (rfind (CHR ''_'') s + 1)) s)
        then take (nat (rfind (CHR ''_'') s)) s
      else if re_match_dotstar_end pat_shard_year s then re_sub_end pat_shard_year s
      else extract_table_name_from_uuid s)"
  using assms underscore_not_blank [OF assms(1)]
  by (simp add: get_target_table_name_def Let_def)

lemma pattern_lengths:
  "length pat_shard_year = 15" "length pattern1 = 37" "length pattern2 = 37"
  "length pattern3 = 42" "length (hexes n) = n" "length (digits n) = n"
  by (simp_all add: pat_shard_year_def pattern1_def pattern2_def pattern3_def uuid_groups_def
      digits_def hexes_def)

lemma pattern_nths:
  "pat_shard_year ! 10 = Lit (CHR ''_'')"
  "pattern1 ! 32 = Hex" "pattern1 ! 24 = Lit (CHR ''_'')" "pattern1 ! 35 = Hex"
  "pattern2 ! 32 = Hex" "pattern2 ! 24 = Lit (CHR ''-'')" "pattern2 ! 35 = Hex"
  "pattern3 ! 37 = Lit (CHR ''_'')"
  by code_simp+

lemma runtime_nths:
  "map Lit ''_runtime'' ! 6 = Lit (CHR ''m'')" "map Lit ''_runtime'' ! 7 = Lit (CHR ''e'')"
  by simp_all

lemma not_runtime_digit_end:
  assumes "ends_fit p s" "p \<noteq> []" "last p = Digit"
  shows "\<not> endswith s ''_runtime''"
proof
  assume "endswith s ''_runtime''"
  then have e: "ends_fit (map Lit ''_runtime'') s" by (simp only: endswith_ends_fit)
  from assms(2) have k: "0 < length p" by simp
  show False
  proof (rule ends_fit_clash [OF e assms(1), of 0])
    show "0 < length (map Lit ''_runtime'')" by simp
    show "0 < length p" by (rule k)
    fix c
    assume "atom_ok (map Lit ''_runtime'' ! (length (map Lit ''_runtime'') - Suc 0)) c"
      and "atom_ok (p ! (length p - Suc 0)) c"
    with assms(2,3) show False by (simp add: last_conv_nth is_digit_def)
  qed
qed

lemma not_runtime_hex_hex_end:
  assumes "ends_fit p s" "1 < length p" "p ! (length p - 2) = Hex"
  shows "\<not> endswith s ''_runtime''"
proof
  assume "endswith s ''_runtime''"
  then have e: "ends_fit (map Lit ''_runtime'') s" by (simp only: endswith_ends_fit)
  show False
  proof (rule ends_fit_clash [OF e assms(1), of 1])
    show "1 < length (map Lit ''_runtime'')" by simp
    show "1 < length p" by (rule assms(2))
    fix c
    assume "atom_ok (map Lit ''_runtime'' ! (length (map Lit ''_runtime'') - Suc 1)) c"
      and "atom_ok (p ! (length p - Suc 1)) c"
    with assms(3) show False by (simp add: is_hex_def numeral_2_eq_2)
  qed
qed

text \<open>Rule 1: the suffix \<open>_runtime\<close>.\<close>

lemma strip_runtime: "get_target_table_name (b @ ''_runtime'') = b"
proof -
  have u: "CHR ''_'' \<in> set (b @ ''_runtime'')" by simp
  have e: "endswith (b @ ''_runtime'') ''_runtime''" by (simp add: endswith_def)
  from underscore_not_blank [OF u] u e show ?thesis
    by (simp add: get_target_table_name_def)
qed

lemma digits_no_underscore:
  assumes "fits (digits n) d"
  shows "CHR ''_'' \<notin> set d"
proof
  assume "CHR ''_'' \<in> set d"
  from fits_set [OF assms this] show False by (simp add: digits_def is_digit_def)
qed

lemma hexes_no_separator:
  assumes "fits (hexes n) h"
  shows "CHR ''_'' \<notin> set h \<and> CHR ''-'' \<notin> set h"
proof -
  have "c \<in> set h \<Longrightarrow> is_hex c" for c
    using fits_set [OF assms] by (auto simp add: hexes_def)
  then show ?thesis by (auto simp add: is_hex_def)
qed

lemma digits_numeric_suffix:
  assumes "fits (digits 9) d"
  shows "is_numeric_suffix d"
proof -
  from fits_length [OF assms] have len: "length d = 9" by (simp add: pattern_lengths)
  then have ne: "d \<noteq> []" by auto
  then have "hd d \<in> set d" by simp
  from fits_set [OF assms this] have "is_digit (hd d)" by (simp add: digits_def)
  then have "\<not> is_space (hd d)" by (auto simp add: is_digit_def is_space_def)
  with \<open>hd d \<in> set d\<close> have "strip d \<noteq> []" by (auto simp add: strip_Nil_iff)
  with ne assms len show ?thesis
    by (simp add: is_numeric_suffix_def re_match_whole_def match_at_def at_dollar_def
        pattern_lengths)
qed

text \<open>Rule 2: a last segment of nine digits, after a non-empty base name.\<close>

lemma strip_nine_digits:
  assumes d: "fits (digits 9) d" and b: "b \<noteq> []"
  shows "get_target_table_name (b @ ''_'' @ d) = b"
proof -
  let ?s = "b @ ''_'' @ d"
  from fits_length [OF d] have len: "length d = 9" by (simp add: pattern_lengths)
  have u: "CHR ''_'' \<in> set ?s" by simp
  have "ends_fit (digits 9) ?s" using ends_fit_append [OF d, of "b @ ''_''"] by simp
  then have nr: "\<not> endswith ?s ''_runtime''"
    by (rule not_runtime_digit_end) (simp_all add: digits_def)
  have r: "rfind (CHR ''_'') ?s = int (length b)"
    using rfind_last_occurrence [OF digits_no_underscore [OF d], of b] by simp
  show ?thesis
    unfolding get_target_table_name_rules [OF u nr] r
    using b digits_numeric_suffix [OF d] by (simp add: nat_add_distrib)
qed

lemma no_end_match:
  assumes "ends_fit q s" "k < length p" "k < length q"
    and "p ! (length p - Suc k) = Lit a" "\<not> atom_ok (q ! (length q - Suc k)) a"
  shows "\<not> ends_fit p s"
proof
  assume "ends_fit p s"
  from ends_fit_nth [OF this assms(2)] ends_fit_nth [OF assms(1) assms(3)] assms(4,5)
  show False by simp
qed

lemma hex_end_not_newline:
  assumes "fits p m" "p \<noteq> []" "last p = Hex \<or> last p = Digit"
  shows "m \<noteq> [] \<and> last m \<noteq> newline"
proof -
  from assms(1,2) have "m \<noteq> []" by (auto simp add: fits_def)
  moreover from fits_last [OF assms(1,2)] assms(3) have "last m \<noteq> newline"
    using not_newline_digit_hex by auto
  ultimately show ?thesis by simp
qed

lemma pattern_lasts:
  "last pattern1 = Hex" "last pattern2 = Hex" "last pattern3 = Digit"
  "last pat_shard_year = Digit" "last (hexes (Suc n)) = Hex"
  by (simp_all add: pattern1_def pattern2_def pattern3_def pat_shard_year_def uuid_groups_def
      hexes_def digits_def)

lemma pattern_nonempty:
  "pattern1 \<noteq> []" "pattern2 \<noteq> []" "pattern3 \<noteq> []" "pat_shard_year \<noteq> []"
  by (simp_all add: pattern1_def pattern2_def pattern3_def pat_shard_year_def)

lemma not_underscore_hex: "\<not> is_hex (CHR ''_'')" "\<not> is_hex (CHR ''-'')"
  by (simp_all add: is_hex_def)

text \<open>Rule 5a: a UUID written with underscores.\<close>

lemma pattern1_split:
  "pattern1 = (Lit (CHR ''_'') # hexes 8 @ Lit (CHR ''_'') # hexes 4 @ Lit (CHR ''_'') # hexes 4 @
      Lit (CHR ''_'') # hexes 4) @ [Lit (CHR ''_'')] @ hexes 12"
  by (simp add: pattern1_def uuid_groups_def)

lemma fits_Lit_Cons: "fits (Lit a # p) m \<longleftrightarrow> (\<exists>m'. m = a # m' \<and> fits p m')"
  by (auto simp add: fits_def list_all2_Cons1)

lemma strip_uuid_underscores:
  assumes m: "fits pattern1 m"
  shows "get_target_table_name (b @ m) = b"
proof -
  let ?s = "b @ m"
  from hex_end_not_newline [OF m] have mn: "m \<noteq> []" "last m \<noteq> newline"
    by (simp_all add: pattern_nonempty pattern_lasts)
  then have sn: "?s \<noteq> []" "last ?s \<noteq> newline" by simp_all
  have e1: "ends_fit pattern1 ?s" by (rule ends_fit_append [OF m])
  from m obtain m' where m': "m = CHR ''_'' # m'"
    by (auto simp add: pattern1_def fits_Lit_Cons)
  then have u: "CHR ''_'' \<in> set ?s" by simp
  have nr: "\<not> endswith ?s ''_runtime''"
    by (rule not_runtime_hex_hex_end [OF e1]) (simp_all add: pattern_lengths pattern_nths)
  obtain f h where fh: "m = f @ CHR ''_'' # h" "fits (hexes 12) h"
  proof -
    from m have "fits ([Lit (CHR ''_'')] @ hexes 12) (drop 24 m)"
      unfolding pattern1_split fits_append [of "_ # _"] by (simp add: pattern_lengths)
    then obtain h where "drop 24 m = CHR ''_'' # h" "fits (hexes 12) h"
      by (auto simp add: fits_Lit_Cons)
    then have "m = take 24 m @ CHR ''_'' # h" "fits (hexes 12) h"
      by (metis append_take_drop_id)+
    then show ?thesis by (rule that)
  qed
  from hexes_no_separator [OF fh(2)] have hu: "CHR ''_'' \<notin> set h" by simp
  have r: "rfind (CHR ''_'') ?s = int (length (b @ f))"
    using rfind_last_occurrence [OF hu, of "b @ f"] by (simp add: fh(1))
  have "drop (nat (rfind (CHR ''_'') ?s + 1)) ?s = h"
    unfolding r by (simp add: fh(1) nat_add_distrib)
  moreover have "\<not> is_numeric_suffix h"
    using fits_length [OF fh(2)] by (intro not_numeric_by_length) (simp_all add: pattern_lengths)
  ultimately have nn: "\<not> is_numeric_suffix (drop (nat (rfind (CHR ''_'') ?s + 1)) ?s)" by simp
  have "\<not> ends_fit pat_shard_year ?s"
    by (rule no_end_match [OF e1, of 4 _ "CHR ''_''"])
      (simp_all add: pattern_lengths pattern_nths not_underscore_hex)
  then have ny: "\<not> re_match_dotstar_end pat_shard_year ?s"
    by (intro re_match_dotstar_end_False sn pattern_nonempty)
  have "re_search_end pattern1 ?s \<noteq> None"
    using re_search_end_Some [OF sn pattern_nonempty(1) e1] by simp
  then have "extract_table_name_from_uuid ?s = b"
    using u re_sub_end_strip [OF m mn] by (simp add: extract_table_name_from_uuid_def)
  then show ?thesis
    unfolding get_target_table_name_rules [OF u nr] using nn ny by simp
qed

text \<open>Rule 5b: a UUID written with hyphens.\<close>

lemma uuid_hyphen_no_underscore:
  assumes "fits (uuid_groups (CHR ''-'')) u"
  shows "CHR ''_'' \<notin> set u"
proof
  assume "CHR ''_'' \<in> set u"
  from fits_set [OF assms this] show False
    by (auto simp add: uuid_groups_def hexes_def is_hex_def)
qed

lemma strip_uuid_hyphens:
  assumes m: "fits pattern2 m"
  shows "get_target_table_name (b @ m) = b"
proof -
  let ?s = "b @ m"
  from hex_end_not_newline [OF m] have mn: "m \<noteq> []" "last m \<noteq> newline"
    by (simp_all add: pattern_nonempty pattern_lasts)
  then have sn: "?s \<noteq> []" "last ?s \<noteq> newline" by simp_all
  have e2: "ends_fit pattern2 ?s" by (rule ends_fit_append [OF m])
  from m obtain u where mu: "m = CHR ''_'' # u" "fits (uuid_groups (CHR ''-'')) u"
    by (auto simp add: pattern2_def fits_Lit_Cons)
  then have u: "CHR ''_'' \<in> set ?s" by simp
  have nr: "\<not> endswith ?s ''_runtime''"
    by (rule not_runtime_hex_hex_end [OF e2]) (simp_all add: pattern_lengths pattern_nths)
  have r: "rfind (CHR ''_'') ?s = int (length b)"
    using rfind_last_occurrence [OF uuid_hyphen_no_underscore [OF mu(2)], of b]
    by (simp add: mu(1))
  have "drop (nat (rfind (CHR ''_'') ?s + 1)) ?s = u"
    unfolding r by (simp add: mu(1) nat_add_distrib)
  moreover have "\<not> is_numeric_suffix u"
    using fits_length [OF m] by (intro not_numeric_by_length) (simp_all add: pattern_lengths mu(1))
  ultimately have nn: "\<not> is_numeric_suffix (drop (nat (rfind (CHR ''_'') ?s + 1)) ?s)" by simp
  have "\<not> ends_fit pat_shard_year ?s"
    by (rule no_end_match [OF e2, of 4 _ "CHR ''_''"])
      (simp_all add: pattern_lengths pattern_nths not_underscore_hex)
  then have ny: "\<not> re_match_dotstar_end pat_shard_year ?s"
    by (intro re_match_dotstar_end_False sn pattern_nonempty)
  have "\<not> ends_fit pattern1 ?s"
    by (rule no_end_match [OF e2, of 12 _ "CHR ''_''"])
      (simp_all add: pattern_lengths pattern_nths)
  then have n1: "re_search_end pattern1 ?s = None"
    by (intro re_search_end_None sn pattern_nonempty)
  have "re_search_end pattern2 ?s \<noteq> None"
    using re_search_end_Some [OF sn pattern_nonempty(2) e2] by simp
  then have "extract_table_name_from_uuid ?s = b"
    using u n1 re_sub_end_strip [OF m mn] by (simp add: extract_table_name_from_uuid_def)
  then show ?thesis
    unfolding get_target_table_name_rules [OF u nr] using nn ny by simp
qed

text \<open>Rule 5c, in its plainest form: 32 hexadecimal digits with no separator.\<close>

lemma split_on_nonempty: "split_on c s \<noteq> []"
  by (induction s) (auto split: list.splits)

lemma split_on_absent: "c \<notin> set h \<Longrightarrow> split_on c h = [h]"
  by (induction h) auto

lemma split_on_last_segment:
  "c \<notin> set h \<Longrightarrow> split_on c (b @ c # h) = split_on c b @ [h]"
proof (induction b)
  case Nil
  then show ?case by (simp add: split_on_absent)
next
  case (Cons x b)
  then show ?case using split_on_nonempty [of c b]
    by (cases "split_on c b") auto
qed

lemma join_Cons_nonempty: "ps \<noteq> [] \<Longrightarrow> join c (p # ps) = p @ c # join c ps"
  by (cases ps) simp_all

lemma join_split_on: "join c (split_on c s) = s"
proof (induction s)
  case Nil
  then show ?case by simp
next
  case (Cons x s)
  show ?case
  proof (cases "x = c")
    case True
    with Cons show ?thesis by (simp add: join_Cons_nonempty split_on_nonempty)
  next
    case False
    obtain y ys where y: "split_on c s = y # ys"
      using split_on_nonempty [of c s] by (cases "split_on c s") auto
    with Cons have "join c (y # ys) = s" by simp
    then have "join c ((x # y) # ys) = x # s" by (cases ys) auto
    with False y show ?thesis by simp
  qed
qed

lemma clean_uuid_hexes:
  assumes "fits (hexes n) h"
  shows "clean_uuid h = h"
  using hexes_no_separator [OF assms] by (auto simp add: clean_uuid_def filter_id_conv)

lemma strip_uuid_compact:
  assumes h: "fits (hexes 32) h"
  shows "get_target_table_name (b @ ''_'' @ h) = b"
proof -
  let ?s = "b @ ''_'' @ h"
  from fits_length [OF h] have len: "length h = 32" by (simp add: pattern_lengths)
  have "fits (hexes (Suc 31)) h" using h by simp
  from hex_end_not_newline [OF this] have hn: "h \<noteq> []" "last h \<noteq> newline"
    by (simp_all add: pattern_lasts hexes_def)
  then have sn: "?s \<noteq> []" "last ?s \<noteq> newline" by simp_all
  have eh: "ends_fit (hexes 32) ?s" using ends_fit_append [OF h, of "b @ ''_''"] by simp
  have u: "CHR ''_'' \<in> set ?s" by simp
  have nr: "\<not> endswith ?s ''_runtime''"
    by (rule not_runtime_hex_hex_end [OF eh]) (simp_all add: hexes_def)
  from hexes_no_separator [OF h] have hu: "CHR ''_'' \<notin> set h" by simp
  have r: "rfind (CHR ''_'') ?s = int (length b)"
    using rfind_last_occurrence [OF hu, of b] by simp
  have "drop (nat (rfind (CHR ''_'') ?s + 1)) ?s = h"
    unfolding r by (simp add: nat_add_distrib)
  moreover have "\<not> is_numeric_suffix h"
    using len by (intro not_numeric_by_length) simp_all
  ultimately have nn: "\<not> is_numeric_suffix (drop (nat (rfind (CHR ''_'') ?s + 1)) ?s)" by simp
  have "\<not> ends_fit pat_shard_year ?s"
    by (rule no_end_match [OF eh, of 4 _ "CHR ''_''"])
      (simp_all add: pattern_lengths pattern_nths not_underscore_hex hexes_def)
  then have ny: "\<not> re_match_dotstar_end pat_shard_year ?s"
    by (intro re_match_dotstar_end_False sn pattern_nonempty)
  have "\<not> ends_fit pattern1 ?s"
    by (rule no_end_match [OF eh, of 12 _ "CHR ''_''"])
      (simp_all add: pattern_lengths pattern_nths not_underscore_hex hexes_def)
  then have n1: "re_search_end pattern1 ?s = None"
    by (intro re_search_end_None sn pattern_nonempty)
  have "\<not> ends_fit pattern2 ?s"
    by (rule no_end_match [OF eh, of 12 _ "CHR ''-''"])
      (simp_all add: pattern_lengths pattern_nths not_underscore_hex hexes_def)
  then have n2: "re_search_end pattern2 ?s = None"
    by (intro re_search_end_None sn pattern_nonempty)
  have "\<not> ends_fit pattern3 ?s"
    by (rule no_end_match [OF eh, of 4 _ "CHR ''_''"])
      (simp_all add: pattern_lengths pattern_nths not_underscore_hex hexes_def)
  then have n3: "re_search_end pattern3 ?s = None"
    by (intro re_search_end_None sn pattern_nonempty)
  obtain k where k: "length (split_on (CHR ''_'') b) = Suc k"
    using split_on_nonempty [of "CHR ''_''" b] by (cases "split_on (CHR ''_'') b") auto
  have parts: "split_on (CHR ''_'') ?s = split_on (CHR ''_'') b @ [h]"
    using split_on_last_segment [OF hu, of b] by simp
  have w: "re_match_whole (hexes 32) h"
    using h len by (simp add: re_match_whole_def match_at_def at_dollar_def pattern_lengths)
  have "uuid_scan (split_on (CHR ''_'') b @ [h]) (Suc k) = Some b"
    using k w len by (simp add: clean_uuid_hexes [OF h] join_split_on)
  then have "extract_table_name_from_uuid ?s = b"
    using u n1 n2 n3 k unfolding extract_table_name_from_uuid_def parts by simp
  then show ?thesis
    unfolding get_target_table_name_rules [OF u nr] using nn ny by simp
qed

lemma no_end_match_rev:
  assumes "ends_fit q s" "k < length p" "k < length q"
    and "q ! (length q - Suc k) = Lit a" "\<not> atom_ok (p ! (length p - Suc k)) a"
  shows "\<not> ends_fit p s"
proof
  assume "ends_fit p s"
  from ends_fit_nth [OF this assms(2)] ends_fit_nth [OF assms(1) assms(3)] assms(4,5)
  show False by simp
qed

lemma more_pattern_nths:
  "pat_shard_year ! 0 = Lit (CHR ''_'')" "pattern3 ! 27 = Hex" "pattern3 ! 37 = Lit (CHR ''_'')"
  "pattern1 ! 32 = Hex" "pattern2 ! 32 = Hex"
  by code_simp+

text \<open>Rule 5a with a year: a UUID written with underscores, then \<open>_\<close> and four digits.\<close>

lemma pattern3_split:
  "pattern3 = pattern1 @ [Lit (CHR ''_'')] @ digits 4"
  by (simp add: pattern3_def pattern1_def)

lemma strip_uuid_year:
  assumes m: "fits pattern3 m"
  shows "get_target_table_name (b @ m) = b"
proof -
  let ?s = "b @ m"
  from hex_end_not_newline [OF m] have mn: "m \<noteq> []" "last m \<noteq> newline"
    by (simp_all add: pattern_nonempty pattern_lasts)
  then have sn: "?s \<noteq> []" "last ?s \<noteq> newline" by simp_all
  have e3: "ends_fit pattern3 ?s" by (rule ends_fit_append [OF m])
  from m obtain m' where m': "m = CHR ''_'' # m'"
    by (auto simp add: pattern3_def fits_Lit_Cons)
  then have u: "CHR ''_'' \<in> set ?s" by simp
  have nr: "\<not> endswith ?s ''_runtime''"
    by (rule not_runtime_digit_end [OF e3]) (simp_all add: pattern_nonempty pattern_lasts)
  obtain f y where fy: "m = f @ CHR ''_'' # y" "fits (digits 4) y"
  proof -
    from m have "fits ([Lit (CHR ''_'')] @ digits 4) (drop 37 m)"
      unfolding pattern3_split fits_append [of pattern1] by (simp add: pattern_lengths)
    then obtain y where "drop 37 m = CHR ''_'' # y" "fits (digits 4) y"
      by (auto simp add: fits_Lit_Cons)
    then have "m = take 37 m @ CHR ''_'' # y" "fits (digits 4) y"
      by (metis append_take_drop_id)+
    then show ?thesis by (rule that)
  qed
  have r: "rfind (CHR ''_'') ?s = int (length (b @ f))"
    using rfind_last_occurrence [OF digits_no_underscore [OF fy(2)], of "b @ f"]
    by (simp add: fy(1))
  have "drop (nat (rfind (CHR ''_'') ?s + 1)) ?s = y"
    unfolding r by (simp add: fy(1) nat_add_distrib)
  moreover have "\<not> is_numeric_suffix y"
    using fits_length [OF fy(2)] by (intro not_numeric_by_length) (simp_all add: pattern_lengths)
  ultimately have nn: "\<not> is_numeric_suffix (drop (nat (rfind (CHR ''_'') ?s + 1)) ?s)" by simp
  have "\<not> ends_fit pat_shard_year ?s"
    by (rule no_end_match [OF e3, of 14 _ "CHR ''_''"])
      (simp_all add: pattern_lengths more_pattern_nths not_underscore_hex)
  then have ny: "\<not> re_match_dotstar_end pat_shard_year ?s"
    by (intro re_match_dotstar_end_False sn pattern_nonempty)
  have "\<not> ends_fit pattern1 ?s"
    by (rule no_end_match_rev [OF e3, of 4 _ "CHR ''_''"])
      (simp_all add: pattern_lengths more_pattern_nths not_underscore_hex)
  then have n1: "re_search_end pattern1 ?s = None"
    by (intro re_search_end_None sn pattern_nonempty)
  have "\<not> ends_fit pattern2 ?s"
    by (rule no_end_match_rev [OF e3, of 4 _ "CHR ''_''"])
      (simp_all add: pattern_lengths more_pattern_nths not_underscore_hex)
  then have n2: "re_search_end pattern2 ?s = None"
    by (intro re_search_end_None sn pattern_nonempty)
  have "re_search_end pattern3 ?s \<noteq> None"
    using re_search_end_Some [OF sn pattern_nonempty(3) e3] by simp
  then have "extract_table_name_from_uuid ?s = b"
    using u n1 n2 re_sub_end_strip [OF m mn] by (simp add: extract_table_name_from_uuid_def)
  then show ?thesis
    unfolding get_target_table_name_rules [OF u nr] using nn ny by simp
qed

text \<open>
  Rule 4: \<open>_\<close>, nine digits, \<open>_\<close> and four digits.  The rule is tried through
  \<open>re.match\<close> with a leading \<open>.*\<close>, which does not run over a newline in the base name.
\<close>

lemma pat_shard_year_split:
  "pat_shard_year = (Lit (CHR ''_'') # digits 9) @ [Lit (CHR ''_'')] @ digits 4"
  by (simp add: pat_shard_year_def)

lemma strip_shard_year:
  assumes m: "fits pat_shard_year m" and b: "newline \<notin> set b"
  shows "get_target_table_name (b @ m) = b"
proof -
  let ?s = "b @ m"
  from hex_end_not_newline [OF m] have mn: "m \<noteq> []" "last m \<noteq> newline"
    by (simp_all add: pattern_nonempty pattern_lasts)
  have ey: "ends_fit pat_shard_year ?s" by (rule ends_fit_append [OF m])
  from m obtain m' where m': "m = CHR ''_'' # m'"
    by (auto simp add: pat_shard_year_def fits_Lit_Cons)
  then have u: "CHR ''_'' \<in> set ?s" by simp
  have nr: "\<not> endswith ?s ''_runtime''"
    by (rule not_runtime_digit_end [OF ey]) (simp_all add: pattern_nonempty pattern_lasts)
  obtain f y where fy: "m = f @ CHR ''_'' # y" "fits (digits 4) y"
  proof -
    from m have "fits ([Lit (CHR ''_'')] @ digits 4) (drop 10 m)"
      unfolding pat_shard_year_split fits_append [of "_ # _"] by (simp add: pattern_lengths)
    then obtain y where "drop 10 m = CHR ''_'' # y" "fits (digits 4) y"
      by (auto simp add: fits_Lit_Cons)
    then have "m = take 10 m @ CHR ''_'' # y" "fits (digits 4) y"
      by (metis append_take_drop_id)+
    then show ?thesis by (rule that)
  qed
  have r: "rfind (CHR ''_'') ?s = int (length (b @ f))"
    using rfind_last_occurrence [OF digits_no_underscore [OF fy(2)], of "b @ f"]
    by (simp add: fy(1))
  have "drop (nat (rfind (CHR ''_'') ?s + 1)) ?s = y"
    unfolding r by (simp add: fy(1) nat_add_distrib)
  moreover have "\<not> is_numeric_suffix y"
    using fits_length [OF fy(2)] by (intro not_numeric_by_length) (simp_all add: pattern_lengths)
  ultimately have nn: "\<not> is_numeric_suffix (drop (nat (rfind (CHR ''_'') ?s + 1)) ?s)" by simp
  have "newline \<notin> set (take (length b) ?s) \<and> match_at pat_shard_year ?s (length b) \<and>
        at_dollar ?s (length b + length pat_shard_year)"
    using m b fits_length [OF m] by (simp add: match_at_def at_dollar_def)
  then have y: "re_match_dotstar_end pat_shard_year ?s"
    unfolding re_match_dotstar_end_def list_ex_iff
    by (intro bexI [of _ "length b"]) simp_all
  show ?thesis
    unfolding get_target_table_name_rules [OF u nr]
    using nn y re_sub_end_strip [OF m mn] by simp
qed

text \<open>
  Rule 5c in general: the last segments of the name, joined, hold exactly 32 hexadecimal
  digits once hyphens and underscores are removed.
\<close>

lemma split_on_append:
  "split_on c (b @ c # u) = split_on c b @ split_on c u"
proof (induction b)
  case Nil
  then show ?case by simp
next
  case (Cons x b)
  then show ?case using split_on_nonempty [of c b]
    by (cases "split_on c b") auto
qed

lemma clean_uuid_join:
  "clean_uuid (join (CHR ''_'') ps) = concat (map clean_uuid ps)"
  by (induction "CHR ''_''" ps rule: join.induct) (simp_all add: clean_uuid_def)

lemma clean_uuid_chars:
  assumes "fits (hexes n) (clean_uuid u)" "c \<in> set u"
  shows "is_hex c \<or> c = CHR ''-'' \<or> c = CHR ''_''"
proof (cases "c = CHR ''-'' \<or> c = CHR ''_''")
  case True
  then show ?thesis by blast
next
  case False
  with assms(2) have "c \<in> set (clean_uuid u)" by (simp add: clean_uuid_def)
  from fits_set [OF assms(1) this] show ?thesis by (auto simp add: hexes_def)
qed

lemma whole_match_hexes:
  "fits (hexes 32) cu \<Longrightarrow> re_match_whole (hexes 32) cu"
  using fits_length [of "hexes 32" cu]
  by (simp add: re_match_whole_def match_at_def at_dollar_def pattern_lengths)

lemma uuid_scan_generic:
  assumes pb: "pb \<noteq> []" and pu: "pu \<noteq> []"
    and all: "fits (hexes 32) (concat (map clean_uuid pu))"
    and first: "clean_uuid (hd pu) \<noteq> []"
  shows "j < length pu \<Longrightarrow>
         uuid_scan (pb @ pu) (length pb + j) = Some (join (CHR ''_'') pb)"
proof (induction j)
  case 0
  from pb obtain k where k: "length pb = Suc k" by (cases pb) auto
  from fits_length [OF all] have "length (concat (map clean_uuid pu)) = 32"
    by (simp add: pattern_lengths)
  with k all show ?case
    by (simp add: clean_uuid_join whole_match_hexes)
next
  case (Suc j)
  let ?cu = "concat (map clean_uuid (drop (Suc j) pu))"
  from pu obtain p ps where ps: "pu = p # ps" by (cases pu) auto
  have "concat (map clean_uuid pu) = concat (map clean_uuid (take (Suc j) pu)) @ ?cu"
    by (metis append_take_drop_id concat_append map_append)
  moreover have "concat (map clean_uuid (take (Suc j) pu)) \<noteq> []"
    using first ps by simp
  ultimately have "length ?cu < length (concat (map clean_uuid pu))"
    by (metis add_gr_0 length_append length_greater_0_conv less_add_same_cancel2)
  with fits_length [OF all] have short: "length ?cu < 32" by (simp add: pattern_lengths)
  from Suc.prems have "j < length pu" by simp
  from Suc.IH [OF this] short show ?case
    by (simp add: clean_uuid_join)
qed

lemma rfind_suffix_not_numeric:
  assumes u: "CHR ''_'' \<in> set s" and nl: "last s \<noteq> newline"
    and n9: "\<not> ends_fit (Lit (CHR ''_'') # digits 9) s"
  shows "\<not> is_numeric_suffix (drop (nat (rfind (CHR ''_'') s + 1)) s)"
proof
  assume num: "is_numeric_suffix (drop (nat (rfind (CHR ''_'') s + 1)) s)"
  from split_list_last [OF u] obtain xs ys where s: "s = xs @ CHR ''_'' # ys"
    and ys: "CHR ''_'' \<notin> set ys" by blast
  have "rfind (CHR ''_'') s = int (length xs)"
    unfolding s by (rule rfind_last_occurrence [OF ys])
  with num have n: "is_numeric_suffix ys" by (simp add: s nat_add_distrib)
  then have ne: "ys \<noteq> []" and w: "re_match_whole (digits 9) ys"
    by (auto simp add: is_numeric_suffix_def split: if_splits)
  from ne nl have "last ys \<noteq> newline" by (simp add: s)
  with ne w have "length ys = 9 \<and> fits (digits 9) ys"
    using at_dollar_end [of ys 9]
    by (auto simp add: re_match_whole_def match_at_def at_dollar_def pattern_lengths)
  then have "fits (Lit (CHR ''_'') # digits 9) (CHR ''_'' # ys)"
    by (simp add: fits_Lit_Cons)
  from ends_fit_append [OF this, of xs] n9 show False by (simp add: s)
qed

lemma strip_uuid_generic:
  assumes hex: "fits (hexes 32) (clean_uuid u)"
    and first: "clean_uuid (hd (split_on (CHR ''_'') u)) \<noteq> []"
    and n9: "\<not> ends_fit (Lit (CHR ''_'') # digits 9) (b @ ''_'' @ u)"
    and ny: "\<not> ends_fit pat_shard_year (b @ ''_'' @ u)"
    and n1: "\<not> ends_fit pattern1 (b @ ''_'' @ u)"
    and n2: "\<not> ends_fit pattern2 (b @ ''_'' @ u)"
    and n3: "\<not> ends_fit pattern3 (b @ ''_'' @ u)"
  shows "get_target_table_name (b @ ''_'' @ u) = b"
proof -
  let ?s = "b @ ''_'' @ u"
  from fits_length [OF hex] have len: "length (clean_uuid u) = 32" by (simp add: pattern_lengths)
  have "length (clean_uuid u) \<le> length u" by (simp add: clean_uuid_def)
  with len have lu: "32 \<le> length u" by simp
  then have une: "u \<noteq> []" by auto
  have chars: "is_hex c \<or> c = CHR ''-'' \<or> c = CHR ''_''" if "c \<in> set u" for c
    using clean_uuid_chars [OF hex that] .
  from une have "last u \<in> set u" by simp
  from chars [OF this] have "last u \<noteq> newline"
    using not_newline_digit_hex(2) by (auto simp add: newline_def)
  with une have sn: "?s \<noteq> []" "last ?s \<noteq> newline" by simp_all
  have us: "CHR ''_'' \<in> set ?s" by simp
  have nr: "\<not> endswith ?s ''_runtime''"
  proof
    assume "endswith ?s ''_runtime''"
    then have "ends_fit (map Lit ''_runtime'') ?s" by (simp only: endswith_ends_fit)
    from ends_fit_nth [OF this, of 1] have "?s ! (length ?s - 2) = CHR ''m''"
      by (simp add: numeral_2_eq_2)
    moreover have "length ?s - 2 = length (b @ ''_'') + (length u - 2)"
      using lu by simp
    then have "?s ! (length ?s - 2) = u ! (length u - 2)"
      using nth_append_length_plus [of "b @ ''_''" u "length u - 2"] by simp
    moreover have "u ! (length u - 2) \<in> set u" using lu by simp
    ultimately have "CHR ''m'' \<in> set u" by simp
    from chars [OF this] show False by (simp add: is_hex_def)
  qed
  have nn: "\<not> is_numeric_suffix (drop (nat (rfind (CHR ''_'') ?s + 1)) ?s)"
    by (rule rfind_suffix_not_numeric [OF us sn(2) n9])
  have nyy: "\<not> re_match_dotstar_end pat_shard_year ?s"
    using ny by (intro re_match_dotstar_end_False sn pattern_nonempty)
  have s1: "re_search_end pattern1 ?s = None"
    using n1 by (intro re_search_end_None sn pattern_nonempty)
  have s2: "re_search_end pattern2 ?s = None"
    using n2 by (intro re_search_end_None sn pattern_nonempty)
  have s3: "re_search_end pattern3 ?s = None"
    using n3 by (intro re_search_end_None sn pattern_nonempty)
  let ?pb = "split_on (CHR ''_'') b" and ?pu = "split_on (CHR ''_'') u"
  have parts: "split_on (CHR ''_'') ?s = ?pb @ ?pu"
    using split_on_append [of "CHR ''_''" b u] by simp
  have pne: "?pb \<noteq> []" "?pu \<noteq> []" by (rule split_on_nonempty)+
  have "concat (map clean_uuid ?pu) = clean_uuid u"
    using clean_uuid_join [of ?pu] by (simp add: join_split_on)
  with hex have all: "fits (hexes 32) (concat (map clean_uuid ?pu))" by simp
  have "uuid_scan (?pb @ ?pu) (length ?pb + (length ?pu - 1)) = Some (join (CHR ''_'') ?pb)"
    using pne by (intro uuid_scan_generic [OF pne all first]) simp
  moreover have "length ?pb + (length ?pu - 1) = length (?pb @ ?pu) - 1"
    using pne by (cases ?pu) simp_all
  ultimately have scan: "uuid_scan (?pb @ ?pu) (length (?pb @ ?pu) - 1) = Some b"
    by (simp add: join_split_on)
  have two: "2 \<le> length (?pb @ ?pu)"
    using pne by (cases ?pb; cases ?pu) simp_all
  have "extract_table_name_from_uuid ?s = b"
    unfolding extract_table_name_from_uuid_def parts [symmetric]
    using us s1 s2 s3 two scan unfolding parts by (simp add: Let_def)
  then show ?thesis
    unfolding get_target_table_name_rules [OF us nr] using nn nyy by simp
qed

text \<open>
  Away from the final-newline case every rule cuts at the end: for a name that does not
  end in a newline the result is a prefix of the name.
\<close>

lemma re_sub_end_prefix:
  assumes "s \<noteq> []" "last s \<noteq> newline" "p \<noteq> []"
  shows "prefix (re_sub_end p s) s"
proof (cases "ends_fit p s")
  case True
  from re_search_end_Some [OF assms True] True show ?thesis
    by (simp add: re_sub_end_def ends_fit_def take_is_prefix)
next
  case False
  from re_search_end_None [OF assms False] show ?thesis by (simp add: re_sub_end_def)
qed

lemma join_take_prefix: "prefix (join c (take j ps)) (join c ps)"
proof (induction ps arbitrary: j)
  case Nil
  then show ?case by simp
next
  case (Cons p qs)
  show ?case
  proof (cases j)
    case 0
    then show ?thesis by simp
  next
    case (Suc j')
    show ?thesis
    proof (cases "take j' qs = []")
      case True
      with Suc show ?thesis by (cases qs) simp_all
    next
      case False
      then have "qs \<noteq> []" by auto
      with False Suc Cons.IH [of j'] show ?thesis by (simp add: join_Cons_nonempty)
    qed
  qed
qed

lemma uuid_scan_take:
  "uuid_scan parts k = Some r \<Longrightarrow> \<exists>j. r = join (CHR ''_'') (take j parts)"
  by (induction k) (auto simp add: Let_def split: if_splits)

lemma extract_table_name_from_uuid_prefix:
  assumes "s = [] \<or> last s \<noteq> newline"
  shows "prefix (extract_table_name_from_uuid s) s"
proof (cases "s = []")
  case True
  then show ?thesis by (simp add: extract_table_name_from_uuid_def)
next
  case False
  with assms have sn: "s \<noteq> []" "last s \<noteq> newline" by simp_all
  have scan: "prefix r s" if "uuid_scan (split_on (CHR ''_'') s) k = Some r" for k r
  proof -
    from uuid_scan_take [OF that] obtain j where
      "r = join (CHR ''_'') (take j (split_on (CHR ''_'') s))" by blast
    with join_take_prefix [of "CHR ''_''" j "split_on (CHR ''_'') s"] show ?thesis
      by (simp add: join_split_on)
  qed
  show ?thesis
    unfolding extract_table_name_from_uuid_def
    using re_sub_end_prefix [OF sn pattern_nonempty(1)] re_sub_end_prefix [OF sn pattern_nonempty(2)]
      re_sub_end_prefix [OF sn pattern_nonempty(3)] scan
    by (auto simp add: Let_def split: option.splits)
qed

section \<open>Properties of the reverse mapping\<close>

lemma collect_mapped_keeps: "x \<in> set acc \<Longrightarrow> x \<in> set (collect_mapped t srcs acc)"
  by (induction srcs arbitrary: acc) simp_all

lemma collect_mapped_adds:
  "s \<in> set srcs \<Longrightarrow> get_target_table_name s = t \<Longrightarrow> s \<in> set (collect_mapped t srcs acc)"
  by (induction srcs arbitrary: acc) (auto simp add: collect_mapped_keeps)

lemma collect_mapped_none:
  "\<forall>x\<in>set srcs. get_target_table_name x \<noteq> t \<Longrightarrow> collect_mapped t srcs acc = acc"
  by (induction srcs arbitrary: acc) simp_all

lemma resolve_source_tables_includes:
  assumes "s \<in> set srcs" "s = t \<or> get_target_table_name s = t"
  shows "s \<in> set (resolve_source_tables t srcs)"
proof -
  have "s \<in> set (collect_mapped t srcs (direct_match t srcs))"
    using assms by (auto simp add: direct_match_def collect_mapped_keeps collect_mapped_adds)
  then show ?thesis by (auto simp add: resolve_source_tables_def Let_def)
qed

lemma create_target_tables_lookup:
  "map_of (create_target_tables schema now targets srcs acc) t =
     (if t \<in> set targets
      then Some ((new_table_info schema t now)\<lparr>source_tables := resolve_source_tables t srcs\<rparr>)
      else map_of acc t)"
  by (induction targets arbitrary: acc) (simp_all add: update_conv')

section \<open>Properties of the scheduler\<close>

lemma lookup_table_update:
  "lookup_table (AList.update s (AList.update n t (tables_of_schema tt s)) tt) s' n' =
     (if s' = s \<and> n' = n then Some t else lookup_table tt s' n')"
  by (simp add: lookup_table_def tables_of_schema_def update_conv')

lemma select_tables_lookup_cases:
  "lookup_table (select_tables ts acc) s n = Some t \<Longrightarrow>
     (t \<in> set ts \<and> eligible t \<and> table_key t = (s, n)) \<or> lookup_table acc s n = Some t"
proof (induction ts arbitrary: acc)
  case Nil
  then show ?case by simp
next
  case (Cons a ts)
  show ?case
  proof (cases "eligible a")
    case False
    with Cons.prems have "lookup_table (select_tables ts acc) s n = Some t"
      by (simp add: eligible_def)
    from Cons.IH [OF this] show ?thesis by auto
  next
    case True
    let ?acc = "AList.update (schema_name a)
                (AList.update (target_table_name a) a (tables_of_schema acc (schema_name a))) acc"
    from True Cons.prems have "lookup_table (select_tables ts ?acc) s n = Some t"
      by (auto simp add: eligible_def)
    from Cons.IH [OF this] True show ?thesis
      by (auto simp add: lookup_table_update table_key_def split: if_splits)
  qed
qed

lemma select_tables_keeps:
  assumes "lookup_table acc s n = Some t" "(s, n) \<notin> table_key ` set ts"
  shows "lookup_table (select_tables ts acc) s n = Some t"
  using assms
proof (induction ts arbitrary: acc)
  case Nil
  then show ?case by simp
next
  case (Cons a ts)
  from Cons.prems(2) have k: "table_key a \<noteq> (s, n)" "(s, n) \<notin> table_key ` set ts" by auto
  then have "lookup_table (AList.update (schema_name a)
                (AList.update (target_table_name a) a (tables_of_schema acc (schema_name a))) acc) s n
             = Some t"
    using Cons.prems(1) by (auto simp add: lookup_table_update table_key_def)
  with Cons.IH k(2) Cons.prems(1) show ?case by simp
qed

lemma select_tables_includes:
  assumes "t \<in> set ts" "eligible t" "distinct (map table_key ts)"
  shows "lookup_table (select_tables ts acc) (schema_name t) (target_table_name t) = Some t"
  using assms
proof (induction ts arbitrary: acc)
  case Nil
  then show ?case by simp
next
  case (Cons a ts)
  show ?case
  proof (cases "t = a")
    case True
    let ?acc = "AList.update (schema_name a)
                (AList.update (target_table_name a) a (tables_of_schema acc (schema_name a))) acc"
    have "lookup_table ?acc (schema_name a) (target_table_name a) = Some a"
      by (simp add: lookup_table_update)
    moreover from Cons.prems(3) have "(schema_name a, target_table_name a) \<notin> table_key ` set ts"
      by (simp add: table_key_def)
    ultimately have "lookup_table (select_tables ts ?acc) (schema_name a) (target_table_name a) = Some a"
      by (rule select_tables_keeps)
    with True Cons.prems(2) show ?thesis by (auto simp add: eligible_def)
  next
    case False
    with Cons.prems have "t \<in> set ts" "distinct (map table_key ts)" by simp_all
    with Cons.IH Cons.prems(2) show ?thesis by simp
  qed
qed

lemma lookup_table_empty: "lookup_table [] s n = None"
  by (simp add: lookup_table_def tables_of_schema_def)

lemma selected_cases:
  "selected (refresh_data app) = [] \<or>
   (\<not> stop_event app \<and> \<not> is_paused app \<and> selected (refresh_data app) = select_tables (tables app) [])"
  by (simp add: refresh_data_def nothing_done_def Let_def)

lemma selected_running:
  "\<not> stop_event app \<Longrightarrow> \<not> is_paused app \<Longrightarrow>
   selected (refresh_data app) = select_tables (tables app) []"
  by (simp add: refresh_data_def nothing_done_def Let_def)

lemma refresh_data_tables: "tables (app_after (refresh_data app)) = tables app"
  by (simp add: refresh_data_def nothing_done_def Let_def)

lemma refresh_data_target_polls:
  "target_polls (refresh_data app) = schemas_to_poll target_updating (selected (refresh_data app))"
  by (simp add: refresh_data_def nothing_done_def Let_def schemas_to_poll_def)

lemma refresh_data_source_polls:
  "source_polls (refresh_data app) =
     (if \<not> stop_event app \<and> \<not> is_paused app \<and> source_update_interval app \<noteq> 0 \<and>
         (target_iteration app + 1) mod source_update_interval app = 0
      then schemas_to_poll source_updating (selected (refresh_data app)) else [])"
  by (simp add: refresh_data_def nothing_done_def Let_def schemas_to_poll_def)

lemma refresh_data_gated:
  "stop_event app \<or> is_paused app \<Longrightarrow> refresh_data app = nothing_done app"
  by (auto simp add: refresh_data_def)

section \<open>Properties of the polling passes\<close>

lemma on_values_append: "on_values f (xs @ ys) = on_values f xs @ on_values f ys"
  by (simp add: on_values_def)

lemma on_values_length: "length (on_values f xs) = length xs"
  by (simp add: on_values_def)

lemma on_values_nth:
  "i < length xs \<Longrightarrow> on_values f xs ! i = (fst (xs ! i), f (snd (xs ! i)))"
  by (simp add: on_values_def case_prod_unfold)

lemma on_values_keys: "map fst (on_values f xs) = map fst xs"
  by (simp add: on_values_def case_prod_unfold)

lemma stopped_never: "stop_at env = None \<Longrightarrow> \<not> stopped env k"
  by (simp add: stopped_def)

subsection \<open>The exact source pass\<close>

lemma count_batch_sum:
  "count_batch env sources = Some temp \<Longrightarrow> temp = sum_list (map (obtained_count env) sources)"
proof (cases "length sources = 1")
  case True
  then obtain s where "sources = [s]" by (cases sources) auto
  moreover assume "count_batch env sources = Some temp"
  ultimately show ?thesis
    by (auto simp add: count_batch_def obtained_count_def split: query_result.splits)
next
  case False
  moreover assume "count_batch env sources = Some temp"
  ultimately show ?thesis by (auto simp add: count_batch_def split: if_splits)
qed

lemma count_each_sum:
  "count_each env k sources acc = Some (temp, k') \<Longrightarrow>
   temp = acc + sum_list (map (obtained_count env) sources)"
proof (induction sources arbitrary: k acc)
  case Nil
  then show ?case by simp
next
  case (Cons s sources)
  then show ?case
    by (cases "count_rows env s")
      (auto simp add: obtained_count_def split: if_splits dest!: Cons.IH)
qed

lemma count_each_not_stopped:
  "stop_at env = None \<Longrightarrow> count_each env k sources acc \<noteq> None"
proof (induction sources arbitrary: k acc)
  case Nil
  then show ?case by simp
next
  case (Cons s sources)
  then show ?case by (cases "count_rows env s") (simp_all add: stopped_never)
qed

lemma source_exact_loop_completed:
  "source_exact_loop env k seen rest = (True, out) \<Longrightarrow>
   out = seen @ on_values (source_exact_step env) rest"
proof (induction rest arbitrary: k seen)
  case Nil
  then show ?case by (simp add: on_values_def)
next
  case (Cons a rest)
  obtain n t where a: "a = (n, t)" by (cases a)
  from Cons.prems a have ns: "\<not> stopped env k" by (auto split: if_splits)
  show ?case
  proof (cases "source_tables t = []")
    case True
    with Cons.prems a ns
    have "source_exact_loop env (Suc k) (seen @ [(n, store_source_exact (current_time env) 0 t)]) rest
          = (True, out)" by simp
    from Cons.IH [OF this] True a show ?thesis
      by (simp add: on_values_def source_exact_step_def)
  next
    case False
    show ?thesis
    proof (cases "count_batch env (source_tables t)")
      case (Some temp)
      with Cons.prems a ns False
      have "source_exact_loop env (Suc k)
              (seen @ [(n, store_source_exact (current_time env) temp t)]) rest = (True, out)"
        by simp
      from Cons.IH [OF this] count_batch_sum [OF Some] a show ?thesis
        by (simp add: on_values_def source_exact_step_def)
    next
      case None
      with Cons.prems a ns False obtain temp k' where
        e: "count_each env (Suc k) (source_tables t) 0 = Some (temp, k')" and
        l: "source_exact_loop env k'
              (seen @ [(n, store_source_exact (current_time env) temp t)]) rest = (True, out)"
        by (auto split: option.splits)
      from Cons.IH [OF l] count_each_sum [OF e] a show ?thesis
        by (simp add: on_values_def source_exact_step_def)
    qed
  qed
qed

lemma source_exact_loop_runs:
  "stop_at env = None \<Longrightarrow> fst (source_exact_loop env k seen rest)"
proof (induction rest arbitrary: k seen)
  case Nil
  then show ?case by simp
next
  case (Cons a rest)
  obtain n t where a: "a = (n, t)" by (cases a)
  from Cons.prems have ns: "\<And>j. \<not> stopped env j" by (simp add: stopped_never)
  show ?case
  proof (cases "count_batch env (source_tables t)")
    case (Some temp)
    with Cons a ns show ?thesis by simp
  next
    case None
    from count_each_not_stopped [OF Cons.prems] obtain temp k' where
      "count_each env (Suc k) (source_tables t) 0 = Some (temp, k')" by fastforce
    with Cons a ns None show ?thesis by simp
  qed
qed

lemma source_exact_pass_completed:
  assumes "update_single_schema_source env tables_dict False = (True, out)"
  shows "out = on_values (source_exact_step env) (mark_source_exact tables_dict)"
proof -
  from assms have "source_exact_loop env 1 [] (mark_source_exact tables_dict) = (True, out)"
    by (simp add: update_single_schema_source_def split: if_splits)
  from source_exact_loop_completed [OF this] show ?thesis by simp
qed

lemma source_exact_step_fields:
  "source_rows (source_exact_step env t) = sum_list (map (obtained_count env) (source_tables t))"
  "source_tables (source_exact_step env t) = source_tables t"
  "\<not> source_updating (source_exact_step env t)"
  "is_consistent (source_exact_step env t) \<longrightarrow> pause_auto_refresh (source_exact_step env t)"
  by (simp_all add: source_exact_step_def store_source_exact_def Let_def)

lemma mark_source_exact_nth:
  "i < length d \<Longrightarrow>
   fst (mark_source_exact d ! i) = fst (d ! i) \<and>
   source_tables (snd (mark_source_exact d ! i)) = source_tables (snd (d ! i))"
  by (simp add: mark_source_exact_def on_values_nth)

lemma example_source_exact:
  "update_single_schema_source example_env example_batch False =
     (True,
      [(''orders'', example_record\<lparr>source_tables := [''orders'', ''orders_123456789'', ''orders_gone''],
                                   target_rows := 12, source_rows := 12,
                                   source_last_updated := 100, pause_auto_refresh := True\<rparr>),
       (''items'', example_record\<lparr>target_table_name := ''items'', source_tables := [''items''],
                                  source_rows := 0, source_last_updated := 100\<rparr>)])"
  by (simp add: update_single_schema_source_def example_env_def example_batch_def
      example_record_def stopped_def mark_source_exact_def on_values_def count_batch_def
      obtained_count_def store_source_exact_def is_consistent_def is_consistent_plain_def
      Let_def)

subsection \<open>The pause flag across a pass\<close>

lemma pause_step_refl: "pause_step e a a"
  by (simp add: pause_step_def)

lemma pause_step_refl_list: "list_all2 (pause_step e) xs xs"
  by (simp add: list_all2_refl pause_step_refl)

lemma pause_step_unmark:
  "pause_step e (n, t) (n, t\<lparr>target_updating := b\<rparr>)"
  "pause_step e (n, t) (n, t\<lparr>source_updating := b\<rparr>)"
  by (simp_all add: pause_step_def is_consistent_def)

lemma pause_step_clear:
  "pause_step e a b \<Longrightarrow> pause_step e a (fst b, (snd b)\<lparr>target_updating := False\<rparr>)"
  "pause_step e a b \<Longrightarrow> pause_step e a (fst b, (snd b)\<lparr>source_updating := False\<rparr>)"
  by (simp_all add: pause_step_def is_consistent_def)

lemma pause_step_clear_list:
  "list_all2 (pause_step e) xs ys \<Longrightarrow> list_all2 (pause_step e) xs (clear_target_updating ys)"
  "list_all2 (pause_step e) xs ys \<Longrightarrow> list_all2 (pause_step e) xs (clear_source_updating ys)"
  by (auto simp add: clear_target_updating_def clear_source_updating_def on_values_def
      list_all2_map2 case_prod_unfold intro: pause_step_clear elim!: list_all2_mono)

lemma pause_step_stores:
  "pause_step True (n, t) (n, store_target_exact now c t)"
  "pause_step e (n, t) (n, store_target_error now t)"
  "pause_step e (n, t) (n, store_target_estimate now c t)"
  "pause_step True (n, t) (n, store_source_exact now c t)"
  "pause_step e (n, t) (n, store_source_estimate now c t)"
  by (simp_all add: pause_step_def store_target_exact_def store_target_error_def
      store_target_estimate_def store_source_exact_def store_source_estimate_def
      roll_previous_target_def Let_def is_consistent_def)

lemma pause_step_after_mark:
  assumes "\<And>t. pause_auto_refresh (f t) = pause_auto_refresh t"
    and "list_all2 (pause_step e) (on_values f d) out"
  shows "list_all2 (pause_step e) d out"
proof -
  have "pause_step e a b" if "pause_step e (fst a, f (snd a)) b" for a b
    using that assms(1) by (simp add: pause_step_def)
  with assms(2) show ?thesis
    by (auto simp add: on_values_def list_all2_map1 case_prod_unfold elim!: list_all2_mono)
qed

text \<open>
  Each loop returns the records it had already handled, as they are or with their marks
  cleared, followed by one record for each record still to handle.
\<close>

lemma target_exact_loop_pause:
  "\<exists>sfx. (snd (target_exact_loop env k seen rest) = seen @ sfx \<or>
          snd (target_exact_loop env k seen rest) = clear_target_updating seen @ sfx) \<and>
         list_all2 (pause_step True) rest sfx"
proof (induction rest arbitrary: k seen)
  case Nil
  then show ?case by simp
next
  case (Cons a rest)
  obtain n t where a: "a = (n, t)" by (cases a)
  show ?case
  proof (cases "stopped env k")
    case True
    have "list_all2 (pause_step True) (a # rest) (clear_target_updating (a # rest))"
      by (rule pause_step_clear_list) (rule pause_step_refl_list)
    with True a show ?thesis
      by (auto simp add: clear_target_updating_def on_values_append)
  next
    case False
    define b where "b = (case count_rows env n of
        QueryError \<Rightarrow> store_target_error (current_time env) t
      | NoRow \<Rightarrow> store_target_exact (current_time env) 0 t
      | Row c \<Rightarrow> store_target_exact (current_time env) c t)"
    have step: "target_exact_loop env k seen (a # rest) =
                target_exact_loop env (Suc k) (seen @ [(n, b)]) rest"
      using False a by (simp add: b_def split: query_result.splits)
    have pb: "pause_step True (n, t) (n, b)"
      by (simp add: b_def pause_step_stores split: query_result.splits)
    from Cons.IH [of "Suc k" "seen @ [(n, b)]"] obtain sfx where
      s: "snd (target_exact_loop env (Suc k) (seen @ [(n, b)]) rest) = (seen @ [(n, b)]) @ sfx \<or>
          snd (target_exact_loop env (Suc k) (seen @ [(n, b)]) rest) =
            clear_target_updating (seen @ [(n, b)]) @ sfx"
      and l: "list_all2 (pause_step True) rest sfx" by blast
    from s show ?thesis
    proof
      assume "snd (target_exact_loop env (Suc k) (seen @ [(n, b)]) rest) = (seen @ [(n, b)]) @ sfx"
      with step a pb l show ?thesis by (intro exI [of _ "(n, b) # sfx"]) simp
    next
      assume c: "snd (target_exact_loop env (Suc k) (seen @ [(n, b)]) rest) =
                 clear_target_updating (seen @ [(n, b)]) @ sfx"
      have "pause_step True (n, t) (n, b\<lparr>target_updating := False\<rparr>)"
        using pause_step_clear(1) [OF pb] by simp
      with step a l c show ?thesis
        by (intro exI [of _ "(n, b\<lparr>target_updating := False\<rparr>) # sfx"])
          (simp add: clear_target_updating_def on_values_def)
    qed
  qed
qed

text \<open>
  The exact source loop returns the records it had already handled, as they are or with
  their marks cleared, followed by one record for each record still to handle: the record
  as it was, or as a completed step leaves it, in both cases possibly with its mark cleared.
\<close>

lemma source_exact_loop_related:
  assumes same: "\<And>a. R a a"
    and clear: "\<And>a b. R a b \<Longrightarrow> R a (fst b, (snd b)\<lparr>source_updating := False\<rparr>)"
    and store: "\<And>n t. R (n, t) (n, source_exact_step env t)"
  shows "\<exists>sfx. (snd (source_exact_loop env k seen rest) = seen @ sfx \<or>
          snd (source_exact_loop env k seen rest) = clear_source_updating seen @ sfx) \<and>
         list_all2 R rest sfx"
proof (induction rest arbitrary: k seen)
  case Nil
  then show ?case by simp
next
  case (Cons a rest)
  obtain n t where a: "a = (n, t)" by (cases a)
  have cancelled: ?case
    if "snd (source_exact_loop env k seen (a # rest)) = clear_source_updating (seen @ a # rest)"
  proof -
    have "list_all2 R (a # rest) (a # rest)" by (simp add: list_all2_refl same)
    then have "list_all2 R (a # rest) (clear_source_updating (a # rest))"
      unfolding clear_source_updating_def on_values_def list_all2_map2 case_prod_unfold
      by (rule list_all2_mono) (rule clear)
    with that show ?thesis
      by (auto simp add: clear_source_updating_def on_values_append)
  qed
  have continued: ?case
    if step: "source_exact_loop env k seen (a # rest) =
              source_exact_loop env j (seen @ [(n, source_exact_step env t)]) rest"
    for j
  proof -
    let ?b = "source_exact_step env t"
    have pb: "R (n, t) (n, ?b)" by (rule store)
    from Cons.IH [of j "seen @ [(n, ?b)]"] obtain sfx where
      s: "snd (source_exact_loop env j (seen @ [(n, ?b)]) rest) = (seen @ [(n, ?b)]) @ sfx \<or>
          snd (source_exact_loop env j (seen @ [(n, ?b)]) rest) =
            clear_source_updating (seen @ [(n, ?b)]) @ sfx"
      and l: "list_all2 R rest sfx" by blast
    from s show ?thesis
    proof
      assume "snd (source_exact_loop env j (seen @ [(n, ?b)]) rest) = (seen @ [(n, ?b)]) @ sfx"
      with step a pb l show ?thesis by (intro exI [of _ "(n, ?b) # sfx"]) simp
    next
      assume c: "snd (source_exact_loop env j (seen @ [(n, ?b)]) rest) =
                 clear_source_updating (seen @ [(n, ?b)]) @ sfx"
      have "R (n, t) (n, ?b\<lparr>source_updating := False\<rparr>)"
        using clear [OF pb] by simp
      with step a l c show ?thesis
        by (intro exI [of _ "(n, ?b\<lparr>source_updating := False\<rparr>) # sfx"])
          (simp add: clear_source_updating_def on_values_def)
    qed
  qed
  show ?case
  proof (cases "stopped env k")
    case True
    with a show ?thesis by (intro cancelled) simp
  next
    case ns: False
    show ?thesis
    proof (cases "source_tables t = []")
      case True
      with ns a show ?thesis
        by (intro continued [of "Suc k"]) (simp add: source_exact_step_def)
    next
      case False
      show ?thesis
      proof (cases "count_batch env (source_tables t)")
        case (Some temp)
        with ns False a count_batch_sum [OF Some] show ?thesis
          by (intro continued [of "Suc k"]) (simp add: source_exact_step_def)
      next
        case None
        show ?thesis
        proof (cases "count_each env (Suc k) (source_tables t) 0")
          case n2: None
          with ns False None a show ?thesis by (intro cancelled) simp
        next
          case (Some r)
          obtain temp k' where r: "r = (temp, k')" by (cases r)
          with Some count_each_sum [of env "Suc k" "source_tables t" 0 temp k']
          have "temp = sum_list (map (obtained_count env) (source_tables t))" by simp
          with r Some ns False None a show ?thesis
            by (intro continued [of k']) (simp add: source_exact_step_def)
        qed
      qed
    qed
  qed
qed

lemma source_exact_loop_pause:
  "\<exists>sfx. (snd (source_exact_loop env k seen rest) = seen @ sfx \<or>
          snd (source_exact_loop env k seen rest) = clear_source_updating seen @ sfx) \<and>
         list_all2 (pause_step True) rest sfx"
proof (rule source_exact_loop_related)
  show "pause_step True a a" for a by (rule pause_step_refl)
  show "pause_step True a (fst b, (snd b)\<lparr>source_updating := False\<rparr>)"
    if "pause_step True a b" for a b using that by (rule pause_step_clear)
  show "pause_step True (n, t) (n, source_exact_step env t)" for n t
    unfolding source_exact_step_def by (rule pause_step_stores)
qed

lemma source_sum_step_nth:
  assumes "list_all2 (source_sum_step env) xs ys" "i < length xs"
  shows "fst (ys ! i) = fst (xs ! i) \<and>
     source_tables (snd (ys ! i)) = source_tables (snd (xs ! i)) \<and>
     (source_rows (snd (ys ! i)) = source_rows (snd (xs ! i)) \<or>
      source_rows (snd (ys ! i)) =
        sum_list (map (obtained_count env) (source_tables (snd (xs ! i)))))"
  using list_all2_nthD [OF assms] by (simp add: source_sum_step_def)

lemma source_exact_pass_sum_steps:
  "list_all2 (source_sum_step env) tables_dict
     (snd (update_single_schema_source env tables_dict False))"
proof -
  let ?m = "mark_source_exact tables_dict"
  have "\<exists>sfx. (snd (source_exact_loop env 1 [] ?m) = [] @ sfx \<or>
          snd (source_exact_loop env 1 [] ?m) = clear_source_updating [] @ sfx) \<and>
         list_all2 (source_sum_step env) ?m sfx"
  proof (rule source_exact_loop_related)
    show "source_sum_step env a a" for a by (simp add: source_sum_step_def)
    show "source_sum_step env a (fst b, (snd b)\<lparr>source_updating := False\<rparr>)"
      if "source_sum_step env a b" for a b using that by (simp add: source_sum_step_def)
    show "source_sum_step env (n, t) (n, source_exact_step env t)" for n t
      by (simp add: source_sum_step_def source_exact_step_fields)
  qed
  then have "list_all2 (source_sum_step env) ?m (snd (source_exact_loop env 1 [] ?m))"
    by (auto simp add: clear_source_updating_def on_values_def)
  then have "list_all2 (source_sum_step env) tables_dict (snd (source_exact_loop env 1 [] ?m))"
    unfolding mark_source_exact_def on_values_def list_all2_map1 case_prod_unfold
    by (rule list_all2_mono) (simp add: source_sum_step_def split: if_splits)
  moreover have "list_all2 (source_sum_step env) tables_dict tables_dict"
    by (simp add: list_all2_refl source_sum_step_def)
  ultimately show ?thesis by (simp add: update_single_schema_source_def)
qed

lemma target_estimate_loop_pause:
  "\<exists>sfx. snd (target_estimate_loop env m k seen rest) = seen @ sfx \<and>
         list_all2 (pause_step e) rest sfx"
proof (induction rest arbitrary: k seen)
  case Nil
  then show ?case by simp
next
  case (Cons a rest)
  obtain n t where a: "a = (n, t)" by (cases a)
  show ?case
  proof (cases "stopped env k")
    case True
    with a show ?thesis
      by (intro exI [of _ "(n, t\<lparr>target_updating := False\<rparr>) # rest"])
        (simp add: pause_step_unmark pause_step_refl_list)
  next
    case False
    let ?b = "store_target_estimate (current_time env) (target_estimate_count env m n) t"
    from Cons.IH [of "Suc k" "seen @ [(n, ?b)]"] obtain sfx where
      "snd (target_estimate_loop env m (Suc k) (seen @ [(n, ?b)]) rest) = (seen @ [(n, ?b)]) @ sfx"
      "list_all2 (pause_step e) rest sfx" by blast
    with False a show ?thesis
      by (intro exI [of _ "(n, ?b) # sfx"]) (simp add: pause_step_stores)
  qed
qed

lemma target_estimate_failed_loop_pause:
  "\<exists>sfx. snd (target_estimate_failed_loop env k seen rest) = seen @ sfx \<and>
         list_all2 (pause_step e) rest sfx"
proof (induction rest arbitrary: k seen)
  case Nil
  then show ?case by simp
next
  case (Cons a rest)
  obtain n t where a: "a = (n, t)" by (cases a)
  show ?case
  proof (cases "stopped env k")
    case True
    with a show ?thesis
      by (intro exI [of _ "(n, t\<lparr>target_updating := False\<rparr>) # rest"])
        (simp add: pause_step_unmark pause_step_refl_list)
  next
    case False
    let ?b = "store_target_estimate (current_time env) (-1) t"
    from Cons.IH [of "Suc k" "seen @ [(n, ?b)]"] obtain sfx where
      "snd (target_estimate_failed_loop env (Suc k) (seen @ [(n, ?b)]) rest) = (seen @ [(n, ?b)]) @ sfx"
      "list_all2 (pause_step e) rest sfx" by blast
    with False a show ?thesis
      by (intro exI [of _ "(n, ?b) # sfx"]) (simp add: pause_step_stores)
  qed
qed

lemma source_estimate_loop_pause:
  "\<exists>sfx. snd (source_estimate_loop env m k seen rest) = seen @ sfx \<and>
         list_all2 (pause_step e) rest sfx"
proof (induction rest arbitrary: k seen)
  case Nil
  then show ?case by simp
next
  case (Cons a rest)
  obtain n t where a: "a = (n, t)" by (cases a)
  show ?case
  proof (cases "stopped env k")
    case True
    with a show ?thesis
      by (intro exI [of _ "(n, t\<lparr>source_updating := False\<rparr>) # rest"])
        (simp add: pause_step_unmark pause_step_refl_list)
  next
    case False
    let ?b = "store_source_estimate (current_time env)
                (source_estimate_total env m (source_tables t)) t"
    from Cons.IH [of "Suc k" "seen @ [(n, ?b)]"] obtain sfx where
      "snd (source_estimate_loop env m (Suc k) (seen @ [(n, ?b)]) rest) = (seen @ [(n, ?b)]) @ sfx"
      "list_all2 (pause_step e) rest sfx" by blast
    with False a show ?thesis
      by (intro exI [of _ "(n, ?b) # sfx"]) (simp add: pause_step_stores)
  qed
qed

lemma source_estimate_failed_loop_pause:
  "\<exists>sfx. snd (source_estimate_failed_loop env k seen rest) = seen @ sfx \<and>
         list_all2 (pause_step e) rest sfx"
proof (induction rest arbitrary: k seen)
  case Nil
  then show ?case by simp
next
  case (Cons a rest)
  obtain n t where a: "a = (n, t)" by (cases a)
  show ?case
  proof (cases "stopped env k")
    case True
    with a show ?thesis
      by (intro exI [of _ "(n, t\<lparr>source_updating := False\<rparr>) # rest"])
        (simp add: pause_step_unmark pause_step_refl_list)
  next
    case False
    let ?b = "store_source_estimate (current_time env)
                (sum_list (map (stats_one_count env) (source_tables t))) t"
    from Cons.IH [of "Suc k" "seen @ [(n, ?b)]"] obtain sfx where
      "snd (source_estimate_failed_loop env (Suc k) (seen @ [(n, ?b)]) rest) = (seen @ [(n, ?b)]) @ sfx"
      "list_all2 (pause_step e) rest sfx" by blast
    with False a show ?thesis
      by (intro exI [of _ "(n, ?b) # sfx"]) (simp add: pause_step_stores)
  qed
qed

text \<open>The marks set at the start of a pass leave the pause flag alone.\<close>

lemma marks_keep_pause:
  "pause_auto_refresh (if \<not> target_updating t then t\<lparr>target_updating := True\<rparr> else t) =
     pause_auto_refresh t"
  "pause_auto_refresh
     (if \<not> target_updating t then t\<lparr>target_updating := True, target_rows := 0\<rparr> else t) =
     pause_auto_refresh t"
  "pause_auto_refresh (if \<not> source_updating t then t\<lparr>source_updating := True\<rparr> else t) =
     pause_auto_refresh t"
  "pause_auto_refresh
     (if \<not> source_updating t then t\<lparr>source_updating := True, source_rows := 0\<rparr> else t) =
     pause_auto_refresh t"
  by simp_all

lemma target_pass_pause:
  "list_all2 (pause_step (\<not> use_information_schema)) tables_dict
     (snd (update_single_schema_target env tables_dict use_information_schema))"
proof (cases use_information_schema)
  case False
  from target_exact_loop_pause [of env 1 "[]" "mark_target_exact tables_dict"]
  have "list_all2 (pause_step True) (mark_target_exact tables_dict)
          (snd (target_exact_loop env 1 [] (mark_target_exact tables_dict)))"
    by (auto simp add: clear_target_updating_def on_values_def)
  then have "list_all2 (pause_step True) tables_dict
          (snd (target_exact_loop env 1 [] (mark_target_exact tables_dict)))"
    unfolding mark_target_exact_def by (rule pause_step_after_mark [rotated]) (rule marks_keep_pause)
  with False show ?thesis
    by (simp add: update_single_schema_target_def pause_step_refl_list)
next
  case True
  let ?m = "mark_target_estimate tables_dict"
  have m: "list_all2 (pause_step False) tables_dict out"
    if "list_all2 (pause_step False) ?m out" for out
    using that unfolding mark_target_estimate_def
    by (rule pause_step_after_mark [rotated]) (rule marks_keep_pause)
  have 1: "list_all2 (pause_step False) tables_dict (clear_target_updating ?m)"
    by (intro m pause_step_clear_list pause_step_refl_list)
  have 2: "list_all2 (pause_step False) tables_dict ?m"
    by (intro m pause_step_refl_list)
  have 3: "list_all2 (pause_step False) tables_dict (snd (target_estimate_failed_loop env 2 [] ?m))"
    using target_estimate_failed_loop_pause [of env 2 "[]" ?m False] by (intro m) auto
  have 4: "list_all2 (pause_step False) tables_dict (snd (target_estimate_loop env sm 2 [] ?m))"
    for sm
    using target_estimate_loop_pause [of env sm 2 "[]" ?m False] by (intro m) auto
  from True 1 2 3 4 show ?thesis
    by (auto simp add: update_single_schema_target_def pause_step_refl_list Let_def
        split: option.splits)
qed

lemma source_pass_pause:
  "list_all2 (pause_step (\<not> use_information_schema)) tables_dict
     (snd (update_single_schema_source env tables_dict use_information_schema))"
proof (cases use_information_schema)
  case False
  from source_exact_loop_pause [of env 1 "[]" "mark_source_exact tables_dict"]
  have "list_all2 (pause_step True) (mark_source_exact tables_dict)
          (snd (source_exact_loop env 1 [] (mark_source_exact tables_dict)))"
    by (auto simp add: clear_source_updating_def on_values_def)
  then have "list_all2 (pause_step True) tables_dict
          (snd (source_exact_loop env 1 [] (mark_source_exact tables_dict)))"
    unfolding mark_source_exact_def by (rule pause_step_after_mark [rotated]) (rule marks_keep_pause)
  with False show ?thesis
    by (simp add: update_single_schema_source_def pause_step_refl_list)
next
  case True
  let ?m = "mark_source_estimate tables_dict"
  have m: "list_all2 (pause_step False) tables_dict out"
    if "list_all2 (pause_step False) ?m out" for out
    using that unfolding mark_source_estimate_def
    by (rule pause_step_after_mark [rotated]) (rule marks_keep_pause)
  have 1: "list_all2 (pause_step False) tables_dict (clear_source_updating ?m)"
    by (intro m pause_step_clear_list pause_step_refl_list)
  have 2: "list_all2 (pause_step False) tables_dict ?m"
    by (intro m pause_step_refl_list)
  have 3: "list_all2 (pause_step False) tables_dict (snd (source_estimate_failed_loop env 2 [] ?m))"
    using source_estimate_failed_loop_pause [of env 2 "[]" ?m False] by (intro m) auto
  have 4: "list_all2 (pause_step False) tables_dict (snd (source_estimate_loop env sm 2 [] ?m))"
    for sm
    using source_estimate_loop_pause [of env sm 2 "[]" ?m False] by (intro m) auto
  from True 1 2 3 4 show ?thesis
    by (auto simp add: update_single_schema_source_def pause_step_refl_list Let_def
        split: option.splits)
qed

subsection \<open>The exact target pass\<close>

lemma target_exact_loop_completed:
  "target_exact_loop env k seen rest = (True, out) \<Longrightarrow>
   out = seen @ map (target_exact_step env) rest"
proof (induction rest arbitrary: k seen)
  case Nil
  then show ?case by simp
next
  case (Cons a rest)
  obtain n t where a: "a = (n, t)" by (cases a)
  from Cons.prems a have "\<not> stopped env k" by (auto split: if_splits)
  with Cons.prems a
  have "target_exact_loop env (Suc k) (seen @ [target_exact_step env a]) rest = (True, out)"
    by (cases "count_rows env n") (simp_all add: target_exact_step_def)
  from Cons.IH [OF this] show ?case by simp
qed

lemma target_exact_step_name: "fst (target_exact_step env a) = fst a"
  by (simp add: target_exact_step_def)

lemma example_target_exact:
  "update_single_schema_target example_env example_batch False =
     (True,
      [(''orders'', example_record\<lparr>source_tables := [''orders'', ''orders_123456789'', ''orders_gone''],
                                   target_rows := 7, previous_target_rows := 7,
                                   is_first_query := False, target_last_updated := 100,
                                   pause_auto_refresh := True\<rparr>),
       (''items'', example_record\<lparr>target_table_name := ''items'', source_tables := [''items''],
                                  target_rows := -1, previous_target_rows := -1,
                                  is_first_query := False, target_last_updated := 100,
                                  target_updating := True\<rparr>)])"
  by (simp add: update_single_schema_target_def example_env_def example_batch_def
      example_record_def stopped_def mark_target_exact_def on_values_def
      store_target_exact_def store_target_error_def roll_previous_target_def
      is_consistent_def is_consistent_plain_def Let_def)

lemma example_source_estimate:
  "update_single_schema_source example_env example_batch True =
     (True,
      [(''orders'', example_record\<lparr>source_tables := [''orders'', ''orders_123456789'', ''orders_gone''],
                                   target_rows := 12, source_rows := 0,
                                   source_last_updated := 100, source_is_estimated := True\<rparr>),
       (''items'', example_record\<lparr>target_table_name := ''items'', source_tables := [''items''],
                                  source_rows := 0, source_last_updated := 100,
                                  source_is_estimated := True\<rparr>)])"
  by (simp add: update_single_schema_source_def example_env_def example_batch_def
      example_record_def stopped_def mark_source_estimate_def on_values_def
      store_source_estimate_def stats_one_count_def Let_def)

lemma example_source_cancelled:
  "update_single_schema_source (example_env\<lparr>stop_at := Some 5\<rparr>) example_batch False =
     (False,
      [(''orders'', example_record\<lparr>source_tables := [''orders'', ''orders_123456789'', ''orders_gone''],
                                   target_rows := 12, source_rows := 12,
                                   source_last_updated := 100, pause_auto_refresh := True\<rparr>),
       (''items'', example_record\<lparr>target_table_name := ''items'', source_tables := [''items'']\<rparr>)])"
  by code_simp

lemma example_target_failed:
  "update_single_schema_target example_env example_failed_batch False =
     (True,
      [(''items'', example_record\<lparr>target_table_name := ''items'', source_tables := [''items''],
                                  source_rows := -1, target_rows := -1,
                                  previous_target_rows := -1, is_first_query := False,
                                  target_last_updated := 100, target_updating := True\<rparr>)])"
  by code_simp

subsection \<open>What an exact pass does to each record\<close>

lemma pause_step_est_nth:
  assumes "list_all2 (pause_step False) xs ys" "i < length xs"
  shows "fst (ys ! i) = fst (xs ! i) \<and>
         pause_auto_refresh (snd (ys ! i)) = pause_auto_refresh (snd (xs ! i))"
  using list_all2_nthD [OF assms] by (auto simp add: pause_step_def)

lemma target_exact_loop_related:
  assumes same: "\<And>a. R a a"
    and clear: "\<And>a b. R a b \<Longrightarrow> R a (fst b, (snd b)\<lparr>target_updating := False\<rparr>)"
    and store: "\<And>a. R a (target_exact_step env a)"
  shows "\<exists>sfx. (snd (target_exact_loop env k seen rest) = seen @ sfx \<or>
          snd (target_exact_loop env k seen rest) = clear_target_updating seen @ sfx) \<and>
         list_all2 R rest sfx"
proof (induction rest arbitrary: k seen)
  case Nil
  then show ?case by simp
next
  case (Cons a rest)
  obtain n t where a: "a = (n, t)" by (cases a)
  show ?case
  proof (cases "stopped env k")
    case True
    have "list_all2 R (a # rest) (a # rest)" by (simp add: list_all2_refl same)
    then have "list_all2 R (a # rest) (clear_target_updating (a # rest))"
      unfolding clear_target_updating_def on_values_def list_all2_map2 case_prod_unfold
      by (rule list_all2_mono) (rule clear)
    with True a show ?thesis
      by (auto simp add: clear_target_updating_def on_values_append)
  next
    case False
    let ?b = "target_exact_step env a"
    have step: "target_exact_loop env k seen (a # rest) =
                target_exact_loop env (Suc k) (seen @ [?b]) rest"
      using False a by (simp add: target_exact_step_def split: query_result.splits)
    have pb: "R a ?b" by (rule store)
    from Cons.IH [of "Suc k" "seen @ [?b]"] obtain sfx where
      s: "snd (target_exact_loop env (Suc k) (seen @ [?b]) rest) = (seen @ [?b]) @ sfx \<or>
          snd (target_exact_loop env (Suc k) (seen @ [?b]) rest) =
            clear_target_updating (seen @ [?b]) @ sfx"
      and l: "list_all2 R rest sfx" by blast
    from s show ?thesis
    proof
      assume "snd (target_exact_loop env (Suc k) (seen @ [?b]) rest) = (seen @ [?b]) @ sfx"
      with step pb l show ?thesis by (intro exI [of _ "?b # sfx"]) simp
    next
      assume c: "snd (target_exact_loop env (Suc k) (seen @ [?b]) rest) =
                 clear_target_updating (seen @ [?b]) @ sfx"
      have "R a (fst ?b, (snd ?b)\<lparr>target_updating := False\<rparr>)" by (rule clear [OF pb])
      with step l c show ?thesis
        by (intro exI [of _ "(fst ?b, (snd ?b)\<lparr>target_updating := False\<rparr>) # sfx"])
          (simp add: clear_target_updating_def on_values_def case_prod_unfold)
    qed
  qed
qed

lemma target_not_reached_same: "target_not_reached a a"
  by (cases "target_updating (snd a)") (simp_all add: target_not_reached_def)

lemma source_not_reached_same: "source_not_reached a a"
  by (cases "source_updating (snd a)") (simp_all add: source_not_reached_def)

lemma target_step_done:
  "target_query_failed env a (target_exact_step env a) \<or>
   target_count_stored env a (target_exact_step env a)"
  by (cases "count_rows env (fst a)")
    (simp_all add: target_query_failed_def target_count_stored_def target_exact_step_def
      store_target_error_def store_target_exact_def roll_previous_target_def obtained_count_def
      Let_def is_consistent_def)

lemma source_step_done: "source_sum_stored env (n, t) (n, source_exact_step env t)"
  by (simp add: source_sum_stored_def source_exact_step_def store_source_exact_def Let_def
      is_consistent_def)

lemma target_outcome_clear:
  assumes "target_exact_outcome env a b"
  shows "target_exact_outcome env a (fst b, (snd b)\<lparr>target_updating := False\<rparr>)"
  using assms
  by (auto simp add: target_exact_outcome_def target_not_reached_def target_query_failed_def
      target_count_stored_def is_consistent_def)

lemma source_outcome_clear:
  assumes "source_exact_outcome env a b"
  shows "source_exact_outcome env a (fst b, (snd b)\<lparr>source_updating := False\<rparr>)"
  using assms
  by (auto simp add: source_exact_outcome_def source_not_reached_def source_sum_stored_def
      is_consistent_def)

text \<open>The mark set at the start of a pass does not show in these relations.\<close>

lemma target_relations_marked:
  "target_not_reached (n, t\<lparr>target_updating := m\<rparr>) b = target_not_reached (n, t) b"
  "target_query_failed env (n, t\<lparr>target_updating := m\<rparr>) b = target_query_failed env (n, t) b"
  "target_count_stored env (n, t\<lparr>target_updating := m\<rparr>) b = target_count_stored env (n, t) b"
  by (simp_all add: target_not_reached_def target_query_failed_def target_count_stored_def)

lemma source_relations_marked:
  "source_not_reached (n, t\<lparr>source_updating := m\<rparr>) b = source_not_reached (n, t) b"
  "source_sum_stored env (n, t\<lparr>source_updating := m\<rparr>) b = source_sum_stored env (n, t) b"
  by (simp_all add: source_not_reached_def source_sum_stored_def)

lemma related_after_mark_target:
  assumes "\<And>n t m b. R (n, t\<lparr>target_updating := m\<rparr>) b = R (n, t) b"
    and "list_all2 R (mark_target_exact d) out"
  shows "list_all2 R d out"
proof -
  have "R a b" if "R (fst a, if \<not> target_updating (snd a) then (snd a)\<lparr>target_updating := True\<rparr>
                              else snd a) b" for a b
    using that assms(1) [where n = "fst a" and t = "snd a" and m = True and b = b]
    by (simp split: if_splits)
  note r = this
  from assms(2) show ?thesis
    unfolding mark_target_exact_def on_values_def list_all2_map1 case_prod_unfold
    by (rule list_all2_mono) (rule r)
qed

lemma related_after_mark_source:
  assumes "\<And>n t m b. R (n, t\<lparr>source_updating := m\<rparr>) b = R (n, t) b"
    and "list_all2 R (mark_source_exact d) out"
  shows "list_all2 R d out"
proof -
  have "R a b" if "R (fst a, if \<not> source_updating (snd a) then (snd a)\<lparr>source_updating := True\<rparr>
                              else snd a) b" for a b
    using that assms(1) [where n = "fst a" and t = "snd a" and m = True and b = b]
    by (simp split: if_splits)
  note r = this
  from assms(2) show ?thesis
    unfolding mark_source_exact_def on_values_def list_all2_map1 case_prod_unfold
    by (rule list_all2_mono) (rule r)
qed

lemma target_exact_pass_outcomes:
  "list_all2 (target_exact_outcome env) d (snd (update_single_schema_target env d False))"
proof -
  let ?m = "mark_target_exact d"
  have "\<exists>sfx. (snd (target_exact_loop env 1 [] ?m) = [] @ sfx \<or>
          snd (target_exact_loop env 1 [] ?m) = clear_target_updating [] @ sfx) \<and>
         list_all2 (target_exact_outcome env) ?m sfx"
  proof (rule target_exact_loop_related)
    show "target_exact_outcome env a a" for a
      by (simp add: target_exact_outcome_def target_not_reached_same)
    show "target_exact_outcome env a (fst b, (snd b)\<lparr>target_updating := False\<rparr>)"
      if "target_exact_outcome env a b" for a b using that by (rule target_outcome_clear)
    show "target_exact_outcome env a (target_exact_step env a)" for a
      using target_step_done [of env a] by (auto simp add: target_exact_outcome_def)
  qed
  then have "list_all2 (target_exact_outcome env) ?m (snd (target_exact_loop env 1 [] ?m))"
    by (auto simp add: clear_target_updating_def on_values_def)
  then have "list_all2 (target_exact_outcome env) d (snd (target_exact_loop env 1 [] ?m))"
    by (rule related_after_mark_target [rotated])
      (simp add: target_exact_outcome_def target_relations_marked)
  moreover have "list_all2 (target_exact_outcome env) d d"
    by (simp add: list_all2_refl target_exact_outcome_def target_not_reached_same)
  ultimately show ?thesis by (simp add: update_single_schema_target_def)
qed

lemma source_exact_pass_outcomes:
  "list_all2 (source_exact_outcome env) d (snd (update_single_schema_source env d False))"
proof -
  let ?m = "mark_source_exact d"
  have "\<exists>sfx. (snd (source_exact_loop env 1 [] ?m) = [] @ sfx \<or>
          snd (source_exact_loop env 1 [] ?m) = clear_source_updating [] @ sfx) \<and>
         list_all2 (source_exact_outcome env) ?m sfx"
  proof (rule source_exact_loop_related)
    show "source_exact_outcome env a a" for a
      by (simp add: source_exact_outcome_def source_not_reached_same)
    show "source_exact_outcome env a (fst b, (snd b)\<lparr>source_updating := False\<rparr>)"
      if "source_exact_outcome env a b" for a b using that by (rule source_outcome_clear)
    show "source_exact_outcome env (n, t) (n, source_exact_step env t)" for n t
      using source_step_done [of env n t] by (simp add: source_exact_outcome_def)
  qed
  then have "list_all2 (source_exact_outcome env) ?m (snd (source_exact_loop env 1 [] ?m))"
    by (auto simp add: clear_source_updating_def on_values_def)
  then have "list_all2 (source_exact_outcome env) d (snd (source_exact_loop env 1 [] ?m))"
    by (rule related_after_mark_source [rotated])
      (simp add: source_exact_outcome_def source_relations_marked)
  moreover have "list_all2 (source_exact_outcome env) d d"
    by (simp add: list_all2_refl source_exact_outcome_def source_not_reached_same)
  ultimately show ?thesis by (simp add: update_single_schema_source_def)
qed

lemma target_exact_pass_done:
  assumes "update_single_schema_target env d False = (True, out)"
  shows "list_all2 (\<lambda>a b. target_query_failed env a b \<or> target_count_stored env a b) d out"
proof -
  from assms have "target_exact_loop env 1 [] (mark_target_exact d) = (True, out)"
    by (simp add: update_single_schema_target_def split: if_splits)
  from target_exact_loop_completed [OF this]
  have out: "out = map (target_exact_step env) (mark_target_exact d)" by simp
  have "list_all2 (\<lambda>a b. target_query_failed env a b \<or> target_count_stored env a b)
          (mark_target_exact d) out"
    unfolding out list_all2_map2 by (simp add: list_all2_refl target_step_done)
  then show ?thesis
    by (rule related_after_mark_target [rotated]) (simp add: target_relations_marked)
qed

lemma source_exact_pass_done:
  assumes "update_single_schema_source env d False = (True, out)"
  shows "list_all2 (source_sum_stored env) d out"
proof -
  from source_exact_pass_completed [OF assms]
  have out: "out = on_values (source_exact_step env) (mark_source_exact d)" .
  have "source_sum_stored env a (fst a, source_exact_step env (snd a))" for a
    using source_step_done [of env "fst a" "snd a"] by simp
  then have "list_all2 (source_sum_stored env) (mark_source_exact d) out"
    unfolding out on_values_def list_all2_map2 case_prod_unfold
    by (simp add: list_all2_refl)
  then show ?thesis
    by (rule related_after_mark_source [rotated]) (simp add: source_relations_marked)
qed

section \<open>Derived fields of a record\<close>

text \<open>
  C1.  For every record whose two counts both differ from \<open>-1\<close>, \<open>data_diff\<close> is \<open>0\<close>
  exactly when \<open>is_consistent\<close> holds; and whenever either count is \<open>-1\<close>,
  \<open>data_diff\<close> is \<open>0\<close>.
\<close>

theorem data_diff_zero_iff_consistent:
  "(target_rows t \<noteq> -1 \<and> source_rows t \<noteq> -1 \<longrightarrow>
      (data_diff t = 0 \<longleftrightarrow> is_consistent t)) \<and>
   (target_rows t = -1 \<or> source_rows t = -1 \<longrightarrow> data_diff t = 0)"
  by (simp add: data_diff_def is_consistent_def is_consistent_plain_def)

theorem data_diff_zero_iff_consistent_witness:
  "target_rows example_record \<noteq> -1 \<and> source_rows example_record \<noteq> -1 \<and>
   data_diff example_record = 0 \<and> is_consistent example_record \<and>
   target_rows (example_record\<lparr>target_rows := -1\<rparr>) = -1 \<and>
   data_diff (example_record\<lparr>target_rows := -1\<rparr>) = 0 \<and>
   \<not> is_consistent (example_record\<lparr>target_rows := -1\<rparr>)"
  using data_diff_zero_iff_consistent [of example_record]
    data_diff_zero_iff_consistent [of "example_record\<lparr>target_rows := -1\<rparr>"]
  by (simp add: example_record_def is_consistent_def is_consistent_plain_def)

text \<open>
  C9.  The claim says that the two bodies of \<open>is_consistent\<close> disagree on some pair of
  counts.  They do not: on \<open>(0, 0)\<close> plain equality already answers \<open>True\<close>, so the
  extra case of the second body changes nothing.
\<close>

theorem is_consistent_variants_disagree_counterexample:
  "\<not> (\<exists>tr sr. is_consistent_plain tr sr \<noteq> is_consistent_zero_case tr sr)"
  by (simp add: is_consistent_plain_def is_consistent_zero_case_def)

text \<open>
  C9, as amended.  The two bodies of \<open>is_consistent\<close> are extensionally equal as functions
  of the two counts; in particular both answer \<open>True\<close> on \<open>(0, 0)\<close>.
\<close>

theorem is_consistent_variants_agree:
  "is_consistent_zero_case = is_consistent_plain \<and> is_consistent_plain 0 0"
  by (auto simp add: fun_eq_iff is_consistent_plain_def is_consistent_zero_case_def)

section \<open>Claims about the name mapping\<close>

text \<open>
  C6.  The claim asks, for every name that matches the runtime, nine-digit or UUID rule,
  that \<open>get_target_table_name\<close> strips exactly the matched suffix and is idempotent.
  The name \<open>a_runtime_runtime\<close> matches the runtime rule, yet applying the function twice
  differs from applying it once: only one suffix is removed per call.
\<close>

theorem get_target_table_name_idempotent_counterexample:
  "endswith ''a_runtime_runtime'' ''_runtime'' \<and>
   get_target_table_name ''a_runtime_runtime'' = ''a_runtime'' \<and>
   get_target_table_name (get_target_table_name ''a_runtime_runtime'') = ''a'' \<and>
   get_target_table_name (get_target_table_name ''a_runtime_runtime'') \<noteq>
     get_target_table_name ''a_runtime_runtime''"
  by code_simp

text \<open>
  C6, as amended.  \<open>get_target_table_name\<close> strips exactly the matched suffix: \<open>_runtime\<close>
  from any name; \<open>_\<close> and nine digits after a non-empty base name; a UUID in 8-4-4-4-12
  form, written with underscores (with or without \<open>_\<close> and a four-digit year after it) or
  with hyphens, together with the underscore before it; \<open>_\<close> and 32 hexadecimal digits;
  \<open>_\<close>, nine digits, \<open>_\<close> and four digits after a base name without newline; and, by the
  generic rule, \<open>_\<close> and any run \<open>u\<close> of trailing segments that holds exactly 32
  hexadecimal digits once its hyphens and underscores are removed and whose first
  segment holds one of them, when the name ends in none of the earlier shapes.  One call
  removes one suffix.  A second call leaves the result unchanged whenever that result
  contains no underscore.
\<close>

theorem get_target_table_name_strips_suffix:
  "get_target_table_name (b @ ''_runtime'') = b \<and>
   (fits (digits 9) d \<and> b \<noteq> [] \<longrightarrow> get_target_table_name (b @ ''_'' @ d) = b) \<and>
   (fits pattern1 m1 \<longrightarrow> get_target_table_name (b @ m1) = b) \<and>
   (fits pattern2 m2 \<longrightarrow> get_target_table_name (b @ m2) = b) \<and>
   (fits (hexes 32) h \<longrightarrow> get_target_table_name (b @ ''_'' @ h) = b) \<and>
   (fits pattern3 m3 \<longrightarrow> get_target_table_name (b @ m3) = b) \<and>
   (fits pat_shard_year m4 \<and> newline \<notin> set b \<longrightarrow> get_target_table_name (b @ m4) = b) \<and>
   (fits (hexes 32) (clean_uuid u) \<and> clean_uuid (hd (split_on (CHR ''_'') u)) \<noteq> [] \<and>
    \<not> ends_fit (Lit (CHR ''_'') # digits 9) (b @ ''_'' @ u) \<and>
    \<not> ends_fit pat_shard_year (b @ ''_'' @ u) \<and>
    \<not> ends_fit pattern1 (b @ ''_'' @ u) \<and>
    \<not> ends_fit pattern2 (b @ ''_'' @ u) \<and>
    \<not> ends_fit pattern3 (b @ ''_'' @ u) \<longrightarrow>
      get_target_table_name (b @ ''_'' @ u) = b) \<and>
   (CHR ''_'' \<notin> set (get_target_table_name s) \<longrightarrow>
      get_target_table_name (get_target_table_name s) = get_target_table_name s)"
proof -
  have "get_target_table_name x = x" if "CHR ''_'' \<notin> set x" for x
    using that by (simp add: get_target_table_name_def)
  then show ?thesis
    using strip_runtime strip_nine_digits strip_uuid_underscores strip_uuid_hyphens
      strip_uuid_compact strip_uuid_year strip_shard_year strip_uuid_generic [of u b]
    by blast
qed

theorem get_target_table_name_strips_suffix_witness:
  "get_target_table_name ''events_runtime'' = ''events'' \<and>
   fits (digits 9) ''123456789'' \<and> ''orders'' \<noteq> [] \<and>
   get_target_table_name ''orders_123456789'' = ''orders'' \<and>
   fits pattern1 ''_0e9b60a4_d6ed_473d_a326_9e8c8f744ec2'' \<and>
   get_target_table_name ''order_bom_0e9b60a4_d6ed_473d_a326_9e8c8f744ec2'' = ''order_bom'' \<and>
   fits pattern2 ''_05355967-c503-4a2d-9dd1-2dd7a9ffa15e'' \<and>
   get_target_table_name ''orders_05355967-c503-4a2d-9dd1-2dd7a9ffa15e'' = ''orders'' \<and>
   fits (hexes 32) ''a1b2c3d4e5f67890abcdef1234567890'' \<and>
   get_target_table_name ''products_a1b2c3d4e5f67890abcdef1234567890'' = ''products'' \<and>
   fits pattern3 ''_05355967_c503_4a2d_9dd1_2dd7a9ffa15e_2030'' \<and>
   get_target_table_name ''order_bom_item_05355967_c503_4a2d_9dd1_2dd7a9ffa15e_2030'' =
     ''order_bom_item'' \<and>
   fits pat_shard_year ''_333367878_2018'' \<and> newline \<notin> set ''order_bom_item'' \<and>
   get_target_table_name ''order_bom_item_333367878_2018'' = ''order_bom_item'' \<and>
   fits (hexes 32) (clean_uuid ''a1b2c3d4_e5f67890-abcd_ef1234567890'') \<and>
   clean_uuid (hd (split_on (CHR ''_'') ''a1b2c3d4_e5f67890-abcd_ef1234567890'')) \<noteq> [] \<and>
   \<not> ends_fit (Lit (CHR ''_'') # digits 9) ''tbl_a1b2c3d4_e5f67890-abcd_ef1234567890'' \<and>
   \<not> ends_fit pat_shard_year ''tbl_a1b2c3d4_e5f67890-abcd_ef1234567890'' \<and>
   \<not> ends_fit pattern1 ''tbl_a1b2c3d4_e5f67890-abcd_ef1234567890'' \<and>
   \<not> ends_fit pattern2 ''tbl_a1b2c3d4_e5f67890-abcd_ef1234567890'' \<and>
   \<not> ends_fit pattern3 ''tbl_a1b2c3d4_e5f67890-abcd_ef1234567890'' \<and>
   get_target_table_name ''tbl_a1b2c3d4_e5f67890-abcd_ef1234567890'' = ''tbl'' \<and>
   CHR ''_'' \<notin> set (get_target_table_name ''orders_123456789'') \<and>
   get_target_table_name (get_target_table_name ''orders_123456789'') =
     get_target_table_name ''orders_123456789''"
proof -
  have d: "fits (digits 9) ''123456789''" by code_simp
  have m1: "fits pattern1 ''_0e9b60a4_d6ed_473d_a326_9e8c8f744ec2''" by code_simp
  have m2: "fits pattern2 ''_05355967-c503-4a2d-9dd1-2dd7a9ffa15e''" by code_simp
  have h: "fits (hexes 32) ''a1b2c3d4e5f67890abcdef1234567890''" by code_simp
  have m3: "fits pattern3 ''_05355967_c503_4a2d_9dd1_2dd7a9ffa15e_2030''" by code_simp
  have m4: "fits pat_shard_year ''_333367878_2018''" by code_simp
  have nl: "newline \<notin> set ''order_bom_item''" by (simp add: newline_def)
  have u: "CHR ''_'' \<notin> set (get_target_table_name ''orders_123456789'')" by code_simp
  have g: "fits (hexes 32) (clean_uuid ''a1b2c3d4_e5f67890-abcd_ef1234567890'')"
    "clean_uuid (hd (split_on (CHR ''_'') ''a1b2c3d4_e5f67890-abcd_ef1234567890'')) \<noteq> []"
    "\<not> ends_fit (Lit (CHR ''_'') # digits 9) ''tbl_a1b2c3d4_e5f67890-abcd_ef1234567890''"
    "\<not> ends_fit pat_shard_year ''tbl_a1b2c3d4_e5f67890-abcd_ef1234567890''"
    "\<not> ends_fit pattern1 ''tbl_a1b2c3d4_e5f67890-abcd_ef1234567890''"
    "\<not> ends_fit pattern2 ''tbl_a1b2c3d4_e5f67890-abcd_ef1234567890''"
    "\<not> ends_fit pattern3 ''tbl_a1b2c3d4_e5f67890-abcd_ef1234567890''"
    by code_simp+
  note rule = get_target_table_name_strips_suffix [where d = "''123456789''"
      and ?m1.0 = "''_0e9b60a4_d6ed_473d_a326_9e8c8f744ec2''"
      and ?m2.0 = "''_05355967-c503-4a2d-9dd1-2dd7a9ffa15e''"
      and h = "''a1b2c3d4e5f67890abcdef1234567890''"
      and ?m3.0 = "''_05355967_c503_4a2d_9dd1_2dd7a9ffa15e_2030''"
      and ?m4.0 = "''_333367878_2018''"
      and u = "''a1b2c3d4_e5f67890-abcd_ef1234567890''"
      and s = "''orders_123456789''"]
  from d m1 m2 h m3 m4 nl u g
    rule [of "''events''"] rule [of "''orders''"] rule [of "''order_bom''"]
    rule [of "''products''"] rule [of "''order_bom_item''"] rule [of "''tbl''"]
  show ?thesis by simp
qed

text \<open>
  C10.  The claim asks that \<open>get_target_table_name s\<close> is a prefix of \<open>s\<close> for every
  string \<open>s\<close>.  The rules written with \<open>$\<close> also match just before a final newline, and
  \<open>re.sub\<close> then removes the match from the middle of the name: the newline stays, and
  the result is no prefix of the input.
\<close>

theorem get_target_table_name_keeps_final_newline:
  "get_target_table_name ''x_123456789_2018\<newline>'' = ''x\<newline>'' \<and>
   \<not> prefix (get_target_table_name ''x_123456789_2018\<newline>'') ''x_123456789_2018\<newline>'' \<and>
   get_target_table_name ''users_a1b2c3d4-e5f6-7890-abcd-ef1234567890\<newline>'' = ''users\<newline>''"
  by code_simp

text \<open>
  C10, as amended.  For every string \<open>s\<close> that does not end in a newline (so for every
  table name the database can deliver, and for the empty string),
  \<open>get_target_table_name s\<close> is a prefix of \<open>s\<close>: each rule only removes a trailing
  suffix.  The name \<open>_runtime\<close> maps to the empty string.
\<close>

theorem get_target_table_name_prefix:
  "(s = [] \<or> last s \<noteq> newline \<longrightarrow> prefix (get_target_table_name s) s) \<and>
   get_target_table_name ''_runtime'' = []"
proof -
  have "prefix (get_target_table_name s) s" if a: "s = [] \<or> last s \<noteq> newline"
  proof (cases "s = []")
    case True
    then show ?thesis by (simp add: get_target_table_name_def)
  next
    case False
    with a have sn: "s \<noteq> []" "last s \<noteq> newline" by simp_all
    show ?thesis
      unfolding get_target_table_name_def
      using re_sub_end_prefix [OF sn pattern_nonempty(4)]
        extract_table_name_from_uuid_prefix [OF a]
      by (simp add: Let_def take_is_prefix)
  qed
  moreover have "get_target_table_name ''_runtime'' = []"
    using strip_runtime [of "[]"] by simp
  ultimately show ?thesis by blast
qed

theorem get_target_table_name_prefix_witness:
  "last ''order_bom_item_333367878_2018'' \<noteq> newline \<and>
   get_target_table_name ''order_bom_item_333367878_2018'' = ''order_bom_item'' \<and>
   prefix (get_target_table_name ''order_bom_item_333367878_2018'')
     ''order_bom_item_333367878_2018'' \<and>
   last ''tbl_a1b2c3d4_e5f67890-abcd_ef1234567890'' \<noteq> newline \<and>
   prefix (get_target_table_name ''tbl_a1b2c3d4_e5f67890-abcd_ef1234567890'')
     ''tbl_a1b2c3d4_e5f67890-abcd_ef1234567890''"
proof -
  have l: "last ''order_bom_item_333367878_2018'' \<noteq> newline"
    "last ''tbl_a1b2c3d4_e5f67890-abcd_ef1234567890'' \<noteq> newline"
    by (simp_all add: newline_def)
  have v: "get_target_table_name ''order_bom_item_333367878_2018'' = ''order_bom_item''"
    by code_simp
  from l v
    get_target_table_name_prefix [of "''order_bom_item_333367878_2018''"]
    get_target_table_name_prefix [of "''tbl_a1b2c3d4_e5f67890-abcd_ef1234567890''"]
  show ?thesis by blast
qed

section \<open>Claims about the reverse mapping\<close>

text \<open>
  C5.  The reverse mapping puts a source name \<open>s\<close> of the schema into the \<open>source_tables\<close>
  of target \<open>t\<close> whenever \<open>s = t\<close> or \<open>s\<close> maps to \<open>t\<close>; so a name always maps back to
  a list that holds it.  When no source name equals or maps to \<open>t\<close>, the list is \<open>[t]\<close>;
  the list is never empty.  The record created for \<open>t\<close> carries exactly this list.
\<close>

theorem reverse_mapping_includes_sources:
  "(s \<in> set srcs \<and> (s = t \<or> get_target_table_name s = t) \<longrightarrow>
      s \<in> set (resolve_source_tables t srcs)) \<and>
   s \<in> set (resolve_source_tables (get_target_table_name s) [s]) \<and>
   ((\<forall>x\<in>set srcs. x \<noteq> t \<and> get_target_table_name x \<noteq> t) \<longrightarrow>
      resolve_source_tables t srcs = [t]) \<and>
   resolve_source_tables t srcs \<noteq> [] \<and>
   (t \<in> set targets \<longrightarrow>
      (\<exists>ti. map_of (create_target_tables schema now targets srcs []) t = Some ti \<and>
            target_table_name ti = t \<and>
            source_tables ti = resolve_source_tables t srcs))"
proof -
  have a: "s \<in> set (resolve_source_tables (get_target_table_name s) [s])"
    by (rule resolve_source_tables_includes) simp_all
  have b: "resolve_source_tables t srcs = [t]"
    if "\<forall>x\<in>set srcs. x \<noteq> t \<and> get_target_table_name x \<noteq> t"
  proof -
    from that have "t \<notin> set srcs" "\<forall>x\<in>set srcs. get_target_table_name x \<noteq> t" by auto
    then show ?thesis
      by (simp add: resolve_source_tables_def direct_match_def collect_mapped_none)
  qed
  have c: "resolve_source_tables t srcs \<noteq> []"
    by (simp add: resolve_source_tables_def Let_def)
  show ?thesis
    using a b c resolve_source_tables_includes [of s srcs t]
    by (simp add: create_target_tables_lookup new_table_info_def)
qed

theorem reverse_mapping_includes_sources_witness:
  "''orders_123456789'' \<in> set example_sources \<and>
   get_target_table_name ''orders_123456789'' = ''orders'' \<and>
   ''orders_123456789'' \<in> set (resolve_source_tables ''orders'' example_sources) \<and>
   resolve_source_tables ''orders'' example_sources =
     [''orders'', ''orders_123456789'', ''orders_05355967-c503-4a2d-9dd1-2dd7a9ffa15e''] \<and>
   list_all (\<lambda>x. x \<noteq> ''users'' \<and> get_target_table_name x \<noteq> ''users'') example_sources \<and>
   resolve_source_tables ''users'' example_sources = [''users''] \<and>
   ''orders'' \<in> set [''orders'', ''users''] \<and>
   map_option source_tables
     (map_of (create_target_tables ''shop'' 0 [''orders'', ''users''] example_sources []) ''orders'') =
     Some (resolve_source_tables ''orders'' example_sources)"
proof -
  have 1: "''orders_123456789'' \<in> set example_sources" by (simp add: example_sources_def)
  have 2: "get_target_table_name ''orders_123456789'' = ''orders''" by code_simp
  have 3: "resolve_source_tables ''orders'' example_sources =
     [''orders'', ''orders_123456789'', ''orders_05355967-c503-4a2d-9dd1-2dd7a9ffa15e'']"
    by code_simp
  have 4: "list_all (\<lambda>x. x \<noteq> ''users'' \<and> get_target_table_name x \<noteq> ''users'') example_sources"
    by code_simp
  then have 5: "\<forall>x\<in>set example_sources. x \<noteq> ''users'' \<and> get_target_table_name x \<noteq> ''users''"
    by (simp add: list_all_iff)
  have 6: "''orders'' \<in> set [''orders'', ''users'']" by simp
  from 1 2 5 6
    reverse_mapping_includes_sources [of "''orders_123456789''" example_sources "''orders''"
      "[''orders'', ''users'']" "''shop''" 0]
    reverse_mapping_includes_sources [of "''orders_123456789''" example_sources "''users''"
      "[''orders'', ''users'']" "''shop''" 0]
  show ?thesis using 3 4 by auto
qed

section \<open>Claims about the scheduler\<close>

text \<open>
  C3.  A record that is consistent and paused is never among the tables a tick of
  \<open>refresh_data\<close> selects for polling.  On a scheduler tick, that is a run of
  \<open>refresh_data\<close> with the stop signal not set and monitoring not paused as a whole
  (pausing monitoring stops the ticks: such a run returns at once), every record that is
  not consistent is selected, whatever its own pause flag; records are told apart by
  schema and table name.
\<close>

theorem refresh_data_selection:
  "(is_consistent t \<and> pause_auto_refresh t \<longrightarrow>
      lookup_table (selected (refresh_data app)) s n \<noteq> Some t) \<and>
   (\<not> stop_event app \<and> \<not> is_paused app \<and> distinct (map table_key (tables app)) \<and>
    t' \<in> set (tables app) \<and> \<not> is_consistent t' \<longrightarrow>
      lookup_table (selected (refresh_data app)) (schema_name t') (target_table_name t') = Some t') \<and>
   (stop_event app \<or> is_paused app \<longrightarrow> selected (refresh_data app) = [])"
proof -
  have a: "lookup_table (selected (refresh_data app)) s n \<noteq> Some t"
    if "is_consistent t \<and> pause_auto_refresh t"
  proof
    assume l: "lookup_table (selected (refresh_data app)) s n = Some t"
    then have "selected (refresh_data app) \<noteq> []" by (auto simp add: lookup_table_empty)
    with selected_cases [of app] l
    have "lookup_table (select_tables (tables app) []) s n = Some t" by auto
    from select_tables_lookup_cases [OF this] that show False
      by (simp add: eligible_def lookup_table_empty)
  qed
  have b: "lookup_table (selected (refresh_data app)) (schema_name t') (target_table_name t') = Some t'"
    if "\<not> stop_event app" "\<not> is_paused app" "distinct (map table_key (tables app))"
      "t' \<in> set (tables app)" "\<not> is_consistent t'"
    using that by (simp add: selected_running select_tables_includes eligible_def)
  have c: "selected (refresh_data app) = []" if "stop_event app \<or> is_paused app"
    using refresh_data_gated [OF that] by (simp add: nothing_done_def)
  from a b c show ?thesis by blast
qed

theorem refresh_data_selection_witness:
  "is_consistent (tables example_app ! 0) \<and> pause_auto_refresh (tables example_app ! 0) \<and>
   lookup_table (selected (refresh_data example_app)) ''shop'' ''orders'' = None \<and>
   \<not> stop_event example_app \<and> \<not> is_paused example_app \<and>
   distinct (map table_key (tables example_app)) \<and>
   tables example_app ! 1 \<in> set (tables example_app) \<and>
   \<not> is_consistent (tables example_app ! 1) \<and> pause_auto_refresh (tables example_app ! 1) \<and>
   lookup_table (selected (refresh_data example_app)) ''shop'' ''items'' =
     Some (tables example_app ! 1) \<and>
   is_paused (example_app\<lparr>is_paused := True\<rparr>) \<and>
   selected (refresh_data (example_app\<lparr>is_paused := True\<rparr>)) = []"
proof -
  have h: "is_consistent (tables example_app ! 0)" "pause_auto_refresh (tables example_app ! 0)"
    "\<not> stop_event example_app" "\<not> is_paused example_app"
    "distinct (map table_key (tables example_app))"
    "tables example_app ! 1 \<in> set (tables example_app)"
    "\<not> is_consistent (tables example_app ! 1)" "pause_auto_refresh (tables example_app ! 1)"
    "schema_name (tables example_app ! 1) = ''shop''"
    "target_table_name (tables example_app ! 1) = ''items''"
    "is_paused (example_app\<lparr>is_paused := True\<rparr>)"
    by (simp_all add: example_app_def example_record_def is_consistent_def
        is_consistent_plain_def table_key_def)
  have n: "lookup_table (selected (refresh_data example_app)) ''shop'' ''orders'' = None"
    by (simp add: example_app_def example_record_def is_consistent_def is_consistent_plain_def
        refresh_data_def Let_def lookup_table_def tables_of_schema_def)
  from h n
    refresh_data_selection [of "tables example_app ! 0" example_app "''shop''" "''orders''"
      "tables example_app ! 1"]
    refresh_data_selection [of "tables example_app ! 0" "example_app\<lparr>is_paused := True\<rparr>"
      "''shop''" "''orders''" "tables example_app ! 1"]
  show ?thesis by simp
qed

text \<open>
  C7.  The claim says that a manual refresh polls both sides at once, whatever the
  interval counters.  With the source interval at \<open>5\<close> and no tick run so far, the manual
  refresh creates the target-side task and no source-side task.
\<close>

theorem action_refresh_source_counterexample:
  "source_update_interval example_app = 5 \<and> target_iteration example_app = 0 \<and>
   \<not> stop_event example_app \<and> \<not> is_paused example_app \<and>
   target_polls (action_refresh example_app) = [''shop''] \<and>
   source_polls (action_refresh example_app) = []"
  by (simp add: example_app_def example_record_def is_consistent_def is_consistent_plain_def
      action_refresh_def clear_pause_flags_def refresh_data_def Let_def schemas_to_poll_def
      tables_of_schema_def)

text \<open>
  C7, as amended.  A manual refresh clears the pause flag of every record and then runs
  one ordinary tick of \<open>refresh_data\<close>.  If the stop signal is set or monitoring is paused
  as a whole, nothing is polled.  Otherwise every record is selected, a target-side task
  is created for each selected schema with no target-side poll in flight, and a
  source-side task is created (for each selected schema with no source-side poll in
  flight) only when the tick counter, increased by one, is a multiple of the source
  interval.
\<close>

theorem action_refresh_effect:
  "list_all (\<lambda>t. \<not> pause_auto_refresh t) (tables (app_after (action_refresh app))) \<and>
   (stop_event app \<or> is_paused app \<longrightarrow>
      target_polls (action_refresh app) = [] \<and> source_polls (action_refresh app) = []) \<and>
   (\<not> stop_event app \<and> \<not> is_paused app \<and> distinct (map table_key (tables app)) \<and>
    t \<in> set (tables app) \<longrightarrow>
      lookup_table (selected (action_refresh app)) (schema_name t) (target_table_name t) =
        Some (t\<lparr>pause_auto_refresh := False\<rparr>)) \<and>
   target_polls (action_refresh app) =
     schemas_to_poll target_updating (selected (action_refresh app)) \<and>
   source_polls (action_refresh app) =
     (if \<not> stop_event app \<and> \<not> is_paused app \<and> source_update_interval app \<noteq> 0 \<and>
         (target_iteration app + 1) mod source_update_interval app = 0
      then schemas_to_poll source_updating (selected (action_refresh app)) else [])"
proof -
  let ?app = "clear_pause_flags app"
  have f: "stop_event ?app = stop_event app" "is_paused ?app = is_paused app"
    "source_update_interval ?app = source_update_interval app"
    "target_iteration ?app = target_iteration app"
    "tables ?app = map (\<lambda>t. t\<lparr>pause_auto_refresh := False\<rparr>) (tables app)"
    by (simp_all add: clear_pause_flags_def)
  have a: "list_all (\<lambda>t. \<not> pause_auto_refresh t) (tables (app_after (action_refresh app)))"
    by (simp add: action_refresh_def refresh_data_tables f list_all_iff)
  have b: "target_polls (action_refresh app) = [] \<and> source_polls (action_refresh app) = []"
    if "stop_event app \<or> is_paused app"
  proof -
    from that have "stop_event ?app \<or> is_paused ?app" by (simp add: f)
    from refresh_data_gated [OF this] show ?thesis
      by (simp add: action_refresh_def nothing_done_def)
  qed
  have c: "lookup_table (selected (action_refresh app)) (schema_name t) (target_table_name t) =
        Some (t\<lparr>pause_auto_refresh := False\<rparr>)"
    if "\<not> stop_event app" "\<not> is_paused app" "distinct (map table_key (tables app))"
      "t \<in> set (tables app)"
  proof -
    let ?t = "t\<lparr>pause_auto_refresh := False\<rparr>"
    have k: "map table_key (tables ?app) = map table_key (tables app)"
      by (simp add: f table_key_def)
    have "lookup_table (select_tables (tables ?app) []) (schema_name ?t) (target_table_name ?t)
          = Some ?t"
      using that by (intro select_tables_includes) (simp_all add: k eligible_def, simp add: f)
    with that show ?thesis by (simp add: action_refresh_def selected_running f)
  qed
  have d: "target_polls (action_refresh app) =
     schemas_to_poll target_updating (selected (action_refresh app))"
    by (simp add: action_refresh_def refresh_data_target_polls)
  have e: "source_polls (action_refresh app) =
     (if \<not> stop_event app \<and> \<not> is_paused app \<and> source_update_interval app \<noteq> 0 \<and>
         (target_iteration app + 1) mod source_update_interval app = 0
      then schemas_to_poll source_updating (selected (action_refresh app)) else [])"
    unfolding action_refresh_def refresh_data_source_polls [of ?app] by (simp add: f)
  from a b c d e show ?thesis by blast
qed

theorem action_refresh_effect_witness:
  "list_all (\<lambda>t. \<not> pause_auto_refresh t) (tables (app_after (action_refresh example_app))) \<and>
   is_paused (example_app\<lparr>is_paused := True\<rparr>) \<and>
   target_polls (action_refresh (example_app\<lparr>is_paused := True\<rparr>)) = [] \<and>
   source_polls (action_refresh (example_app\<lparr>is_paused := True\<rparr>)) = [] \<and>
   \<not> stop_event example_app \<and> \<not> is_paused example_app \<and>
   distinct (map table_key (tables example_app)) \<and>
   tables example_app ! 0 \<in> set (tables example_app) \<and>
   lookup_table (selected (action_refresh example_app)) ''shop'' ''orders'' =
     Some ((tables example_app ! 0)\<lparr>pause_auto_refresh := False\<rparr>) \<and>
   target_polls (action_refresh example_app) = [''shop''] \<and>
   source_polls (action_refresh example_app) = [] \<and>
   source_polls (action_refresh (example_app\<lparr>target_iteration := 4\<rparr>)) = [''shop'']"
proof -
  have h: "is_paused (example_app\<lparr>is_paused := True\<rparr>)"
    "\<not> stop_event example_app" "\<not> is_paused example_app"
    "distinct (map table_key (tables example_app))"
    "tables example_app ! 0 \<in> set (tables example_app)"
    "schema_name (tables example_app ! 0) = ''shop''"
    "target_table_name (tables example_app ! 0) = ''orders''"
    by (simp_all add: example_app_def example_record_def table_key_def)
  have p: "target_polls (action_refresh example_app) = [''shop'']"
    "source_polls (action_refresh example_app) = []"
    "source_polls (action_refresh (example_app\<lparr>target_iteration := 4\<rparr>)) = [''shop'']"
    by (simp_all add: example_app_def example_record_def is_consistent_def
        is_consistent_plain_def action_refresh_def clear_pause_flags_def refresh_data_def Let_def
        schemas_to_poll_def tables_of_schema_def)
  from h p
    action_refresh_effect [of example_app "tables example_app ! 0"]
    action_refresh_effect [of "example_app\<lparr>is_paused := True\<rparr>" "tables example_app ! 0"]
  show ?thesis by simp
qed

section \<open>Claims about the polling passes\<close>

text \<open>
  C2.  The claim asks that a pass clears, on every exit path, the updating flags it set.
  In the exact target pass a table whose count query raises is given the count \<open>-1\<close>, but
  its \<open>target_updating\<close> flag is not cleared: the pass returns \<open>True\<close> and the flag stays
  set.  The scheduler then finds a record of the schema still marked and creates no
  further target-side task for it.
\<close>

theorem target_updating_stuck_after_query_failure:
  "connect_ok example_env \<and> stop_at example_env = None \<and>
   count_rows example_env ''items'' = QueryError \<and>
   map (\<lambda>(name, t). (name, target_updating t)) example_batch =
     [(''orders'', False), (''items'', False)] \<and>
   fst (update_single_schema_target example_env example_batch False) \<and>
   map (\<lambda>(name, t). (name, target_rows t, target_updating t))
     (snd (update_single_schema_target example_env example_batch False)) =
     [(''orders'', 7, False), (''items'', -1, True)] \<and>
   schemas_to_poll target_updating
     [(''shop'', snd (update_single_schema_target example_env example_batch False))] = []"
  by (simp add: example_target_exact schemas_to_poll_def)
    (simp add: example_env_def example_batch_def example_record_def)

text \<open>
  C4.  When the exact source pass completes (returns \<open>True\<close>), every record keeps its
  name and its source tables, and its \<open>source_rows\<close> is the sum of the counts obtained for
  its source tables; a source table whose count query fails adds \<open>0\<close>.  On every exit path
  of the pass, the stop signal included, the \<open>source_rows\<close> of a record is either that sum
  or left as it was.  A pass that connects and never sees the stop signal completes.
\<close>

theorem source_exact_pass_sums_counts:
  "(update_single_schema_source env tables_dict False = (True, out) \<longrightarrow>
      length out = length tables_dict \<and>
      (\<forall>i<length tables_dict.
         fst (out ! i) = fst (tables_dict ! i) \<and>
         source_tables (snd (out ! i)) = source_tables (snd (tables_dict ! i)) \<and>
         source_rows (snd (out ! i)) =
           sum_list (map (obtained_count env) (source_tables (snd (tables_dict ! i)))))) \<and>
   (\<forall>i<length tables_dict.
      fst (snd (update_single_schema_source env tables_dict False) ! i) = fst (tables_dict ! i) \<and>
      (source_rows (snd (snd (update_single_schema_source env tables_dict False) ! i)) =
         source_rows (snd (tables_dict ! i)) \<or>
       source_rows (snd (snd (update_single_schema_source env tables_dict False) ! i)) =
         sum_list (map (obtained_count env) (source_tables (snd (tables_dict ! i)))))) \<and>
   (count_rows env s = QueryError \<longrightarrow> obtained_count env s = 0) \<and>
   (count_rows env s = Row n \<longrightarrow> obtained_count env s = n) \<and>
   (connect_ok env \<and> stop_at env = None \<longrightarrow>
      fst (update_single_schema_source env tables_dict False))"
proof -
  have a: "length out = length tables_dict \<and>
      (\<forall>i<length tables_dict.
         fst (out ! i) = fst (tables_dict ! i) \<and>
         source_tables (snd (out ! i)) = source_tables (snd (tables_dict ! i)) \<and>
         source_rows (snd (out ! i)) =
           sum_list (map (obtained_count env) (source_tables (snd (tables_dict ! i)))))"
    if "update_single_schema_source env tables_dict False = (True, out)"
  proof -
    let ?m = "mark_source_exact tables_dict"
    have len: "length ?m = length tables_dict"
      by (simp add: mark_source_exact_def on_values_length)
    from source_exact_pass_completed [OF that]
    have out: "out = on_values (source_exact_step env) ?m" .
    show ?thesis
      using mark_source_exact_nth [of _ tables_dict]
      by (simp add: out on_values_length len on_values_nth source_exact_step_fields)
  qed
  have b: "fst (update_single_schema_source env tables_dict False)"
    if "connect_ok env \<and> stop_at env = None"
    using that
    by (simp add: update_single_schema_source_def stopped_never source_exact_loop_runs)
  have c: "fst (snd (update_single_schema_source env tables_dict False) ! i) = fst (tables_dict ! i) \<and>
      (source_rows (snd (snd (update_single_schema_source env tables_dict False) ! i)) =
         source_rows (snd (tables_dict ! i)) \<or>
       source_rows (snd (snd (update_single_schema_source env tables_dict False) ! i)) =
         sum_list (map (obtained_count env) (source_tables (snd (tables_dict ! i)))))"
    if "i < length tables_dict" for i
    using source_sum_step_nth [OF source_exact_pass_sum_steps that] by simp
  from a b c show ?thesis by (simp add: obtained_count_def)
qed

theorem source_exact_pass_sums_counts_witness:
  "fst (update_single_schema_source example_env example_batch False) \<and>
   source_tables (snd (example_batch ! 0)) = [''orders'', ''orders_123456789'', ''orders_gone''] \<and>
   count_rows example_env ''orders'' = Row 7 \<and>
   count_rows example_env ''orders_123456789'' = Row 5 \<and>
   count_rows example_env ''orders_gone'' = QueryError \<and>
   obtained_count example_env ''orders_gone'' = 0 \<and>
   source_rows (snd (snd (update_single_schema_source example_env example_batch False) ! 0)) = 12 \<and>
   source_rows (snd (snd (update_single_schema_source example_env example_batch False) ! 1)) = 0 \<and>
   connect_ok example_env \<and> stop_at example_env = None \<and>
   \<not> fst (update_single_schema_source (example_env\<lparr>stop_at := Some 5\<rparr>) example_batch False) \<and>
   source_rows (snd (snd (update_single_schema_source (example_env\<lparr>stop_at := Some 5\<rparr>)
                            example_batch False) ! 0)) = 12 \<and>
   source_rows (snd (snd (update_single_schema_source (example_env\<lparr>stop_at := Some 5\<rparr>)
                            example_batch False) ! 1)) = source_rows (snd (example_batch ! 1))"
proof -
  let ?r = "update_single_schema_source example_env example_batch False"
  let ?c = "update_single_schema_source (example_env\<lparr>stop_at := Some 5\<rparr>) example_batch False"
  have r: "?r = (True, snd ?r)" by (simp add: example_source_exact)
  have e: "count_rows example_env ''orders'' = Row 7"
    "count_rows example_env ''orders_123456789'' = Row 5"
    "count_rows example_env ''orders_gone'' = QueryError"
    "connect_ok example_env" "stop_at example_env = None"
    "source_tables (snd (example_batch ! 0)) = [''orders'', ''orders_123456789'', ''orders_gone'']"
    by (simp_all add: example_env_def example_batch_def)
  have c: "\<not> fst ?c" "source_rows (snd (snd ?c ! 0)) = 12"
    "source_rows (snd (snd ?c ! 1)) = source_rows (snd (example_batch ! 1))"
    unfolding example_source_cancelled by (simp_all add: example_batch_def example_record_def)
  from source_exact_pass_sums_counts [of example_env example_batch "snd ?r" "''orders_gone''" 5] r e
  have "fst ?r \<and> obtained_count example_env ''orders_gone'' = 0 \<and>
        source_rows (snd (snd ?r ! 0)) = 12 \<and> source_rows (snd (snd ?r ! 1)) = 0"
    by (simp add: example_source_exact)
  with e c show ?thesis by blast
qed

text \<open>
  C8.  The claim says that no source-side update sets the pause flag.  The exact source
  pass does: the record \<open>orders\<close> of the example batch is not paused, its target count is
  \<open>12\<close>; the source pass sums \<open>7 + 5 + 0\<close>, finds the record consistent and pauses it.
\<close>

theorem source_pass_sets_pause_counterexample:
  "\<not> pause_auto_refresh (snd (example_batch ! 0)) \<and>
   target_rows (snd (example_batch ! 0)) = 12 \<and>
   fst (update_single_schema_source example_env example_batch False) \<and>
   source_rows (snd (snd (update_single_schema_source example_env example_batch False) ! 0)) = 12 \<and>
   pause_auto_refresh (snd (snd (update_single_schema_source example_env example_batch False) ! 0))"
  by (simp add: example_source_exact) (simp add: example_batch_def example_record_def)

text \<open>
  C8, as amended.  The estimate pass of either side leaves every pause flag as it was,
  on every exit path.  Over the exact target pass, on every exit path, each record is in
  one of three situations: the pass did not reach it, and only its updating mark may
  differ; its count query raised, its count is \<open>-1\<close> and its pause flag is as before,
  also when the source count is \<open>-1\<close> and the record is therefore consistent; or its count
  query succeeded, the count is stored, and the pause flag is set exactly if it was set
  before or the record is now consistent.  Over the exact source pass each record is
  either not reached or holds the sum of the counts of its source tables, with the pause
  flag set exactly if it was set before or the record is now consistent.  A pass that
  completes has reached every record.
\<close>

theorem pause_set_by_exact_passes:
  "(out = snd (update_single_schema_target env d True) \<or>
    out = snd (update_single_schema_source env d True) \<longrightarrow>
      length out = length d \<and>
      (\<forall>i<length d.
         fst (out ! i) = fst (d ! i) \<and>
         pause_auto_refresh (snd (out ! i)) = pause_auto_refresh (snd (d ! i)))) \<and>
   (out = snd (update_single_schema_target env d False) \<longrightarrow>
      length out = length d \<and>
      (\<forall>i<length d.
         target_not_reached (d ! i) (out ! i) \<or> target_query_failed env (d ! i) (out ! i) \<or>
         target_count_stored env (d ! i) (out ! i))) \<and>
   (out = snd (update_single_schema_source env d False) \<longrightarrow>
      length out = length d \<and>
      (\<forall>i<length d.
         source_not_reached (d ! i) (out ! i) \<or> source_sum_stored env (d ! i) (out ! i))) \<and>
   (update_single_schema_target env d False = (True, out) \<longrightarrow>
      (\<forall>i<length d.
         target_query_failed env (d ! i) (out ! i) \<or> target_count_stored env (d ! i) (out ! i))) \<and>
   (update_single_schema_source env d False = (True, out) \<longrightarrow>
      (\<forall>i<length d. source_sum_stored env (d ! i) (out ! i)))"
proof -
  have est: "length out = length d \<and>
      (\<forall>i<length d.
         fst (out ! i) = fst (d ! i) \<and>
         pause_auto_refresh (snd (out ! i)) = pause_auto_refresh (snd (d ! i)))"
    if "out = snd (update_single_schema_target env d True) \<or>
        out = snd (update_single_schema_source env d True)"
  proof -
    from that target_pass_pause [of True d env] source_pass_pause [of True d env]
    have l: "list_all2 (pause_step False) d out" by auto
    from list_all2_lengthD [OF l] pause_step_est_nth [OF l] show ?thesis by simp
  qed
  have tx: "length out = length d \<and>
      (\<forall>i<length d.
         target_not_reached (d ! i) (out ! i) \<or> target_query_failed env (d ! i) (out ! i) \<or>
         target_count_stored env (d ! i) (out ! i))"
    if "out = snd (update_single_schema_target env d False)"
  proof -
    from that target_exact_pass_outcomes [of env d]
    have l: "list_all2 (target_exact_outcome env) d out" by simp
    from list_all2_lengthD [OF l] list_all2_nthD [OF l] show ?thesis
      by (simp add: target_exact_outcome_def)
  qed
  have sx: "length out = length d \<and>
      (\<forall>i<length d.
         source_not_reached (d ! i) (out ! i) \<or> source_sum_stored env (d ! i) (out ! i))"
    if "out = snd (update_single_schema_source env d False)"
  proof -
    from that source_exact_pass_outcomes [of env d]
    have l: "list_all2 (source_exact_outcome env) d out" by simp
    from list_all2_lengthD [OF l] list_all2_nthD [OF l] show ?thesis
      by (simp add: source_exact_outcome_def)
  qed
  have td: "\<forall>i<length d.
         target_query_failed env (d ! i) (out ! i) \<or> target_count_stored env (d ! i) (out ! i)"
    if "update_single_schema_target env d False = (True, out)"
    using list_all2_nthD [OF target_exact_pass_done [OF that]] by simp
  have sd: "\<forall>i<length d. source_sum_stored env (d ! i) (out ! i)"
    if "update_single_schema_source env d False = (True, out)"
    using list_all2_nthD [OF source_exact_pass_done [OF that]] by simp
  from est tx sx td sd show ?thesis by blast
qed

theorem pause_set_by_exact_passes_witness:
  "length (snd (update_single_schema_source example_env example_batch True)) = length example_batch \<and>
   \<not> pause_auto_refresh (snd (example_batch ! 0)) \<and>
   \<not> pause_auto_refresh (snd (snd (update_single_schema_source example_env example_batch True) ! 0)) \<and>
   fst (update_single_schema_target example_env example_batch False) \<and>
   count_rows example_env ''orders'' = Row 7 \<and>
   target_count_stored example_env (example_batch ! 0)
     (snd (update_single_schema_target example_env example_batch False) ! 0) \<and>
   is_consistent (snd (snd (update_single_schema_target example_env example_batch False) ! 0)) \<and>
   pause_auto_refresh (snd (snd (update_single_schema_target example_env example_batch False) ! 0)) \<and>
   fst (update_single_schema_target example_env example_failed_batch False) \<and>
   count_rows example_env ''items'' = QueryError \<and>
   target_query_failed example_env (example_failed_batch ! 0)
     (snd (update_single_schema_target example_env example_failed_batch False) ! 0) \<and>
   is_consistent (snd (snd (update_single_schema_target example_env example_failed_batch False) ! 0)) \<and>
   \<not> pause_auto_refresh
       (snd (snd (update_single_schema_target example_env example_failed_batch False) ! 0)) \<and>
   fst (update_single_schema_source example_env example_batch False) \<and>
   source_sum_stored example_env (example_batch ! 0)
     (snd (update_single_schema_source example_env example_batch False) ! 0) \<and>
   pause_auto_refresh (snd (snd (update_single_schema_source example_env example_batch False) ! 0)) \<and>
   \<not> fst (update_single_schema_source (example_env\<lparr>stop_at := Some 5\<rparr>) example_batch False) \<and>
   source_not_reached (example_batch ! 1)
     (snd (update_single_schema_source (example_env\<lparr>stop_at := Some 5\<rparr>) example_batch False) ! 1)"
proof -
  let ?se = "update_single_schema_source example_env example_batch True"
  let ?sx = "update_single_schema_source example_env example_batch False"
  let ?sc = "update_single_schema_source (example_env\<lparr>stop_at := Some 5\<rparr>) example_batch False"
  let ?tx = "update_single_schema_target example_env example_batch False"
  let ?tf = "update_single_schema_target example_env example_failed_batch False"
  have fin: "?sx = (True, snd ?sx)" "?tx = (True, snd ?tx)" "?tf = (True, snd ?tf)"
    by (simp_all add: example_source_exact example_target_exact example_target_failed)
  have n: "0 < length example_batch" "1 < length example_batch" "0 < length example_failed_batch"
    by (simp_all add: example_batch_def example_failed_batch_def)
  have c: "count_rows example_env ''orders'' = Row 7" "count_rows example_env ''items'' = QueryError"
    "fst (example_batch ! 0) = ''orders''" "fst (example_failed_batch ! 0) = ''items''"
    by (simp_all add: example_env_def example_batch_def example_failed_batch_def)
  have p: "\<not> pause_auto_refresh (snd (example_batch ! 0))"
    by (simp add: example_batch_def example_record_def)
  note est = pause_set_by_exact_passes [of "snd ?se" example_env example_batch]
  note tgt = pause_set_by_exact_passes [of "snd ?tx" example_env example_batch]
  note tgf = pause_set_by_exact_passes [of "snd ?tf" example_env example_failed_batch]
  note src = pause_set_by_exact_passes [of "snd ?sx" example_env example_batch]
  note can = pause_set_by_exact_passes [of "snd ?sc" "example_env\<lparr>stop_at := Some 5\<rparr>" example_batch]
  from est have 1: "length (snd ?se) = length example_batch" by blast
  from est n(1) p have 2: "\<not> pause_auto_refresh (snd (snd ?se ! 0))" by blast
  from fin(2) have 3: "fst ?tx" by (metis fst_conv)
  from tgt fin(2) n(1)
  have "target_query_failed example_env (example_batch ! 0) (snd ?tx ! 0) \<or>
        target_count_stored example_env (example_batch ! 0) (snd ?tx ! 0)" by blast
  with c(1,3) have 4: "target_count_stored example_env (example_batch ! 0) (snd ?tx ! 0)"
    by (auto simp add: target_query_failed_def)
  have 5: "is_consistent (snd (snd ?tx ! 0))" "pause_auto_refresh (snd (snd ?tx ! 0))"
    unfolding example_target_exact
    by (simp_all add: example_record_def is_consistent_def is_consistent_plain_def)
  from fin(3) have 6: "fst ?tf" by (metis fst_conv)
  from tgf fin(3) n(3)
  have "target_query_failed example_env (example_failed_batch ! 0) (snd ?tf ! 0) \<or>
        target_count_stored example_env (example_failed_batch ! 0) (snd ?tf ! 0)" by blast
  with c(2,4) have 7: "target_query_failed example_env (example_failed_batch ! 0) (snd ?tf ! 0)"
    by (auto simp add: target_count_stored_def)
  have 8: "is_consistent (snd (snd ?tf ! 0))" "\<not> pause_auto_refresh (snd (snd ?tf ! 0))"
    unfolding example_target_failed
    by (simp_all add: example_record_def is_consistent_def is_consistent_plain_def)
  from fin(1) have 9: "fst ?sx" by (metis fst_conv)
  from src fin(1) n(1)
  have 10: "source_sum_stored example_env (example_batch ! 0) (snd ?sx ! 0)" by blast
  have 11: "pause_auto_refresh (snd (snd ?sx ! 0))"
    unfolding example_source_exact by simp
  have 12: "\<not> fst ?sc" unfolding example_source_cancelled by simp
  from can n(2)
  have "source_not_reached (example_batch ! 1) (snd ?sc ! 1) \<or>
        source_sum_stored (example_env\<lparr>stop_at := Some 5\<rparr>) (example_batch ! 1) (snd ?sc ! 1)"
    by blast
  moreover have "\<not> source_sum_stored (example_env\<lparr>stop_at := Some 5\<rparr>) (example_batch ! 1)
                     (snd ?sc ! 1)"
    unfolding example_source_cancelled
    by (simp add: source_sum_stored_def example_batch_def example_record_def example_env_def
        obtained_count_def)
  ultimately have 13: "source_not_reached (example_batch ! 1) (snd ?sc ! 1)" by blast
  from 1 p 2 3 c(1) 4 5 6 c(2) 7 8 9 10 11 12 13 show ?thesis by blast
qed

end
